theory Spec2Isabelle
  imports Complex_Main "HOL-Library.Log_Nat"
begin

section \<open>Floating-point values\<close>

text \<open>
  The arrays of the pipeline hold IEEE doubles. A finite double is the real number it
  stands for (the two zeros are one value), and the three special values are kept, since
  the code branches on them: \<open>NaN\<close> propagates through every operation, compares false
  with everything, and an infinity times zero is \<open>NaN\<close>.
\<close>

datatype fl = NaN | NInf | Fin real | PInf

text \<open>
  The result of an arithmetic operation on finite values is the exact result rounded to
  the nearest double, a tie going to the even significand: 53 bits of significand, the
  exponent of the leading bit no lower than \<open>-1022\<close> (below which the spacing of the
  doubles stays \<open>2 powi - 1074\<close>), and an infinity when the rounded magnitude reaches
  \<open>2 powi 1024\<close>. \<open>ilog2 a\<close> is the exponent of the leading bit of \<open>a > 0\<close>.
\<close>

definition ilog2 :: "real \<Rightarrow> int" where
  "ilog2 a = (if 1 \<le> a then bitlen \<lfloor>a\<rfloor> - 1 else - bitlen (\<lceil>1 / a\<rceil> - 1))"

definition round_half_even :: "real \<Rightarrow> int" where
  "round_half_even q =
     (let n = \<lfloor>q\<rfloor>; r = q - of_int n
      in if r < 1 / 2 then n else if 1 / 2 < r then n + 1 else if even n then n else n + 1)"

definition round_double :: "real \<Rightarrow> fl" where
  "round_double x =
     (if x = 0 then Fin 0
      else let a = \<bar>x\<bar>;
               e = max (ilog2 a) (- 1022);
               m = round_half_even (a / 2 powi (e - 52));
               r = of_int m * 2 powi (e - 52)
        in if 2 powi 1024 \<le> r then (if 0 < x then PInf else NInf)
           else Fin (if 0 < x then r else - r))"

text \<open>A value that an array of doubles can hold: rounding leaves it as it is.\<close>

definition is_double :: "fl \<Rightarrow> bool" where
  "is_double v = (case v of Fin r \<Rightarrow> round_double r = Fin r | _ \<Rightarrow> True)"

fun fadd :: "fl \<Rightarrow> fl \<Rightarrow> fl" where
  "fadd NaN y = NaN"
| "fadd x NaN = NaN"
| "fadd (Fin a) (Fin b) = round_double (a + b)"
| "fadd PInf NInf = NaN"
| "fadd NInf PInf = NaN"
| "fadd PInf y = PInf"
| "fadd x PInf = PInf"
| "fadd NInf y = NInf"
| "fadd x NInf = NInf"

fun fmul :: "fl \<Rightarrow> fl \<Rightarrow> fl" where
  "fmul NaN y = NaN"
| "fmul x NaN = NaN"
| "fmul (Fin a) (Fin b) = round_double (a * b)"
| "fmul PInf (Fin b) = (if b = 0 then NaN else if 0 < b then PInf else NInf)"
| "fmul NInf (Fin b) = (if b = 0 then NaN else if 0 < b then NInf else PInf)"
| "fmul (Fin a) PInf = (if a = 0 then NaN else if 0 < a then PInf else NInf)"
| "fmul (Fin a) NInf = (if a = 0 then NaN else if 0 < a then NInf else PInf)"
| "fmul PInf PInf = PInf"
| "fmul NInf NInf = PInf"
| "fmul PInf NInf = NInf"
| "fmul NInf PInf = NInf"

text \<open>Division; a zero divisor is taken as \<open>+0.0\<close>.\<close>

fun fdiv :: "fl \<Rightarrow> fl \<Rightarrow> fl" where
  "fdiv NaN y = NaN"
| "fdiv x NaN = NaN"
| "fdiv (Fin a) (Fin b) =
     (if b = 0 then (if a = 0 then NaN else if 0 < a then PInf else NInf)
      else round_double (a / b))"
| "fdiv (Fin a) PInf = Fin 0"
| "fdiv (Fin a) NInf = Fin 0"
| "fdiv PInf (Fin b) = (if 0 \<le> b then PInf else NInf)"
| "fdiv NInf (Fin b) = (if 0 \<le> b then NInf else PInf)"
| "fdiv PInf PInf = NaN"
| "fdiv PInf NInf = NaN"
| "fdiv NInf PInf = NaN"
| "fdiv NInf NInf = NaN"

text \<open>The comparisons \<open><\<close>, \<open>>\<close>, \<open>==\<close> and \<open>!=\<close>: each one is false on \<open>NaN\<close> but \<open>!=\<close>.\<close>

fun flt :: "fl \<Rightarrow> fl \<Rightarrow> bool" where
  "flt NaN y = False"
| "flt x NaN = False"
| "flt (Fin a) (Fin b) = (a < b)"
| "flt NInf NInf = False"
| "flt NInf y = True"
| "flt x NInf = False"
| "flt PInf y = False"
| "flt x PInf = True"

definition fgt :: "fl \<Rightarrow> fl \<Rightarrow> bool" where
  "fgt x y = flt y x"

definition feq :: "fl \<Rightarrow> fl \<Rightarrow> bool" where
  "feq x y = (x \<noteq> NaN \<and> y \<noteq> NaN \<and> x = y)"

definition fne :: "fl \<Rightarrow> fl \<Rightarrow> bool" where
  "fne x y = (\<not> feq x y)"

definition fsquare :: "fl \<Rightarrow> fl" where
  "fsquare x = fmul x x"

text \<open>
  \<open>np.sum\<close> over a 1-D run of values, and \<open>np.mean\<close> (the sum over the count). The
  additions are taken in index order, each of them rounded; numpy may associate the
  additions of a long run in another order, which changes the rounding of the sum and
  not what is summed.
\<close>

definition fsum :: "fl list \<Rightarrow> fl" where
  "fsum xs = foldl fadd (Fin 0) xs"

definition fmean :: "fl list \<Rightarrow> fl" where
  "fmean xs = fdiv (fsum xs) (Fin (real (length xs)))"

definition is_finite :: "fl \<Rightarrow> bool" where
  "is_finite x = (case x of Fin a \<Rightarrow> True | _ \<Rightarrow> False)"

section \<open>Arrays\<close>

text \<open>
  A 2-D array is its rows together with the length of the second axis, which an array
  with no rows still has. \<open>shape0\<close> is the number of rows.
\<close>

record 'a array2 =
  shape1 :: nat
  rows :: "'a list list"

definition shape0 :: "'a array2 \<Rightarrow> nat" where
  "shape0 a = length (rows a)"

definition shape :: "'a array2 \<Rightarrow> nat \<times> nat" where
  "shape a = (shape0 a, shape1 a)"

definition wf_array :: "'a array2 \<Rightarrow> bool" where
  "wf_array a = list_all (\<lambda>r. length r = shape1 a) (rows a)"

definition amap :: "('a \<Rightarrow> 'b) \<Rightarrow> 'a array2 \<Rightarrow> 'b array2" where
  "amap g a = \<lparr>shape1 = shape1 a, rows = map (map g) (rows a)\<rparr>"

text \<open>\<open>a[i0:i1]\<close> for \<open>0 \<le> i0\<close>: the slice is clipped to the length.\<close>

definition slice :: "int \<Rightarrow> int \<Rightarrow> 'a list \<Rightarrow> 'a list" where
  "slice i0 i1 xs = take (nat (i1 - i0)) (drop (nat i0) xs)"

text \<open>\<open>r.reshape(n_blocks, F_block)\<close> of one row of length \<open>n_blocks * F_block\<close>.\<close>

definition reshape_row :: "nat \<Rightarrow> nat \<Rightarrow> 'a list \<Rightarrow> 'a list list" where
  "reshape_row n_blocks F_block r =
     map (\<lambda>b. take F_block (drop (b * F_block) r)) [0..<n_blocks]"


section \<open>Errors\<close>

text \<open>
  One constructor for each place where the two stages raise, named after what the
  message says. \<open>ZeroDivisionError\<close> is Python's own, raised by \<open>//\<close> on a zero divisor;
  the two broadcast errors are numpy's and h5py's, raised by an element-wise operation
  or an assignment on shapes that do not fit.
\<close>

datatype error =
    XXYYShapeMismatch
  | FreqAxisMismatch
  | TimeShapeError
  | StartIdxOutOfRange
  | NsMaxNotPositive
  | NoSamplesSelected
  | ZeroDivisionError
  | NotEnoughSamples
  | StoreBroadcastError
  | MissingAxes
  | MissingPolarizations
  | BadFlagMode
  | MaskBroadcastError
  | MaskShapeMismatch
  | FBlockNotPositive
  | NoFullBlock
  | InconsistentBlocks
  | NothingCleaned
  | ReshapeError

text \<open>
  Modelled from the spec: the error taxonomy of its section 7, which the code does not
  have (every check of the code raises \<open>ValueError\<close>, \<open>KeyError\<close> or \<open>RuntimeError\<close>).
  Each check is classified by what its message reports; an exception that no check of
  the code raises on purpose is \<open>Unclassified\<close>.
\<close>

datatype error_class = ConfigError | ShapeMismatchError | InsufficientDataError | Unclassified

fun error_class_of :: "error \<Rightarrow> error_class" where
  "error_class_of XXYYShapeMismatch = ShapeMismatchError"
| "error_class_of FreqAxisMismatch = ShapeMismatchError"
| "error_class_of TimeShapeError = ShapeMismatchError"
| "error_class_of StartIdxOutOfRange = ConfigError"
| "error_class_of NsMaxNotPositive = ConfigError"
| "error_class_of NoSamplesSelected = InsufficientDataError"
| "error_class_of ZeroDivisionError = Unclassified"
| "error_class_of NotEnoughSamples = InsufficientDataError"
| "error_class_of StoreBroadcastError = Unclassified"
| "error_class_of MissingAxes = Unclassified"
| "error_class_of MissingPolarizations = Unclassified"
| "error_class_of BadFlagMode = ConfigError"
| "error_class_of MaskBroadcastError = Unclassified"
| "error_class_of MaskShapeMismatch = ShapeMismatchError"
| "error_class_of FBlockNotPositive = ConfigError"
| "error_class_of NoFullBlock = InsufficientDataError"
| "error_class_of InconsistentBlocks = ShapeMismatchError"
| "error_class_of NothingCleaned = Unclassified"
| "error_class_of ReshapeError = Unclassified"

definition ebind :: "error + 'a \<Rightarrow> ('a \<Rightarrow> error + 'b) \<Rightarrow> error + 'b" where
  "ebind m k = (case m of Inl e \<Rightarrow> Inl e | Inr x \<Rightarrow> k x)"

section \<open>The persisted stage-1 product\<close>

text \<open>
  The HDF5 file that \<open>stream_sk_dualpol\<close> writes and \<open>rfi_clean\<close> reads. A dataset or an
  attribute that a file may lack is an option. \<open>s1\<close> is a float dataset, \<open>sk_flags\<close> an
  integer one (\<open>int8\<close>; only \<open>-1\<close>, \<open>0\<close> and \<open>1\<close> are ever written, so no wrap-around).
\<close>

record skstream_file =
  s1_xx :: "fl array2 option"
  s1_yy :: "fl array2 option"
  sk_flags_xx :: "int array2 option"
  sk_flags_yy :: "int array2 option"
  freq_hz :: "fl list option"
  time_blk :: "fl list option"
  attr_M :: "int option"
  attr_N :: "int option"
  attr_d :: "fl option"
  attr_pfa :: "fl option"
  attr_ns_total :: "int option"
  attr_ns_start :: "int option"
  attr_ns_eff :: "int option"
  attr_nfreq :: "int option"

section \<open>Stage 2: \<open>ovro_lwa_rfi_clean.py\<close>\<close>

text \<open>
  What \<open>_load_skstream\<close> returns. A polarization is loaded when both its \<open>s1\<close> and its
  flags are in the file (\<open>has_xx\<close>, \<open>has_yy\<close>); its pair is then \<open>(s1, flags)\<close>, both
  converted to float.
\<close>

record skdata =
  d_freq_hz :: "fl list"
  d_time_blk :: "fl list"
  d_xx :: "(fl array2 \<times> fl array2) option"
  d_yy :: "(fl array2 \<times> fl array2) option"
  d_M :: "int option"
  d_N :: "int option"
  d_d :: "fl option"
  d_pfa :: "fl option"

definition has_xx :: "skdata \<Rightarrow> bool" where
  "has_xx data = (d_xx data \<noteq> None)"

definition has_yy :: "skdata \<Rightarrow> bool" where
  "has_yy data = (d_yy data \<noteq> None)"

definition asfloat :: "int \<Rightarrow> fl" where
  "asfloat i = Fin (real_of_int i)"

definition load_pol :: "fl array2 option \<Rightarrow> int array2 option \<Rightarrow> (fl array2 \<times> fl array2) option" where
  "load_pol s1 flags =
     (case (s1, flags) of
        (Some s, Some g) \<Rightarrow> Some (s, amap asfloat g)
      | _ \<Rightarrow> None)"

definition load_skstream :: "skstream_file \<Rightarrow> error + skdata" where
  "load_skstream f =
     (case (freq_hz f, time_blk f) of
        (Some freq, Some tb) \<Rightarrow>
          (let xx = load_pol (s1_xx f) (sk_flags_xx f);
               yy = load_pol (s1_yy f) (sk_flags_yy f)
           in if \<not> (xx \<noteq> None \<or> yy \<noteq> None) then Inl MissingPolarizations
              else Inr \<lparr>d_freq_hz = freq, d_time_blk = tb, d_xx = xx, d_yy = yy,
                        d_M = attr_M f, d_N = attr_N f, d_d = attr_d f, d_pfa = attr_pfa f\<rparr>)
      | _ \<Rightarrow> Inl MissingAxes)"

definition astype_float :: "bool \<Rightarrow> fl" where
  "astype_float g = (if g then Fin 1 else Fin 0)"

text \<open>
  \<open>_clean_with_good_mask\<close>. The conversion \<open>float(F_block)\<close> is exact: where it is
  taken, \<open>F_block\<close> is at most the number of channels of the array.
\<close>

definition clean_with_good_mask ::
  "fl array2 \<Rightarrow> bool array2 \<Rightarrow> int \<Rightarrow> error + (fl array2 \<times> fl array2 \<times> nat \<times> nat)" where
  "clean_with_good_mask s1 good F_block =
     (if shape s1 \<noteq> shape good then Inl MaskShapeMismatch
      else let F = shape1 s1 in
        if F_block \<le> 0 then Inl FBlockNotPositive
        else let n_blocks = F div nat F_block;
                 F_eff = n_blocks * nat F_block in
          if n_blocks = 0 then Inl NoFullBlock
          else let
            s1_eff = map (take F_eff) (rows s1);
            good_eff = map (take F_eff) (rows good);
            good_f = map (map astype_float) good_eff;
            s1_masked = map2 (map2 fmul) s1_eff good_f;
            s1_blk = map (reshape_row n_blocks (nat F_block)) s1_masked;
            good_blk = map (reshape_row n_blocks (nat F_block)) good_f;
            s1_sum = map (map fsum) s1_blk;
            n_good = map (map fsum) good_blk;
            avg_good = map2 (map2 (\<lambda>s n. if fgt n (Fin 0) then fdiv s n else Fin 0)) s1_sum n_good;
            s1_clean = map (map (\<lambda>a. fmul a (Fin (real_of_int F_block)))) avg_good;
            s1_clean_nan = map2 (map2 (\<lambda>c n. if feq n (Fin 0) then NaN else c)) s1_clean n_good;
            mask_block = n_good
          in Inr (\<lparr>shape1 = n_blocks, rows = s1_clean_nan\<rparr>,
                  \<lparr>shape1 = n_blocks, rows = mask_block\<rparr>, F_eff, n_blocks))"


text \<open>
  \<open>flag_mode.lower()\<close>, on ASCII letters (a character of a HOL string is a byte).
\<close>

definition lower_char :: "char \<Rightarrow> char" where
  "lower_char c =
     (case map_of (zip ''ABCDEFGHIJKLMNOPQRSTUVWXYZ'' ''abcdefghijklmnopqrstuvwxyz'') c of
        Some l \<Rightarrow> l
      | None \<Rightarrow> c)"

definition str_lower :: "string \<Rightarrow> string" where
  "str_lower s = map lower_char s"

text \<open>
  numpy's element-wise binary operation on two 2-D arrays: along each axis the two
  lengths are equal or one of them is 1 (that operand is repeated), and any other pair
  of shapes is an error.
\<close>

definition broadcast_dim :: "nat \<Rightarrow> nat \<Rightarrow> nat option" where
  "broadcast_dim a b =
     (if a = b then Some a else if a = 1 then Some b else if b = 1 then Some a else None)"

definition broadcast_to :: "nat \<Rightarrow> nat \<Rightarrow> 'a array2 \<Rightarrow> 'a array2" where
  "broadcast_to r c a =
     \<lparr>shape1 = c,
      rows = map (\<lambda>row. if shape1 a = c then row else replicate c (hd row))
               (if shape0 a = r then rows a else replicate r (hd (rows a)))\<rparr>"

definition elementwise :: "('a \<Rightarrow> 'b \<Rightarrow> 'c) \<Rightarrow> 'a array2 \<Rightarrow> 'b array2 \<Rightarrow> error + 'c array2" where
  "elementwise g x y =
     (case (broadcast_dim (shape0 x) (shape0 y), broadcast_dim (shape1 x) (shape1 y)) of
        (Some r, Some c) \<Rightarrow>
          Inr \<lparr>shape1 = c,
               rows = map2 (map2 g) (rows (broadcast_to r c x)) (rows (broadcast_to r c y))\<rparr>
      | _ \<Rightarrow> Inl MaskBroadcastError)"

text \<open>\<open>flags == 0\<close> and \<open>flags != 0\<close>.\<close>

definition good_of :: "fl array2 \<Rightarrow> bool array2" where
  "good_of flags = amap (\<lambda>v. feq v (Fin 0)) flags"

definition flagged_of :: "fl array2 \<Rightarrow> bool array2" where
  "flagged_of flags = amap (\<lambda>v. fne v (Fin 0)) flags"

text \<open>
  \<open>good_comb\<close> of \<open>rfi_clean\<close>: the shared mask, which exists only under \<open>or\<close> and
  \<open>and\<close> with both polarizations loaded.
\<close>

definition good_comb :: "string \<Rightarrow> skdata \<Rightarrow> error + bool array2 option" where
  "good_comb flag_mode data =
     (if (flag_mode = ''or'' \<or> flag_mode = ''and'') \<and> has_xx data \<and> has_yy data then
        (case (d_xx data, d_yy data) of
           (Some (s1x, flags_xx), Some (s1y, flags_yy)) \<Rightarrow>
             (let fxx = flagged_of flags_xx;
                  fyy = flagged_of flags_yy
              in ebind (if flag_mode = ''or'' then elementwise (\<or>) fxx fyy
                        else elementwise (\<and>) fxx fyy)
                   (\<lambda>flagged_comb. Inr (Some (amap Not flagged_comb))))
         | _ \<Rightarrow> Inr None)
      else Inr None)"

text \<open>
  The mask one polarization is integrated with (\<open>good_for_xx\<close>, \<open>good_for_yy\<close>): the
  shared one if there is one, its own otherwise.
\<close>

definition good_for :: "bool array2 option \<Rightarrow> fl array2 \<Rightarrow> bool array2" where
  "good_for comb flags = (case comb of Some g \<Rightarrow> g | None \<Rightarrow> good_of flags)"

definition clean_pol ::
  "bool array2 option \<Rightarrow> int \<Rightarrow> (fl array2 \<times> fl array2) option \<Rightarrow>
     error + (fl array2 \<times> fl array2 \<times> nat \<times> nat) option" where
  "clean_pol comb F_block pol =
     (case pol of
        None \<Rightarrow> Inr None
      | Some (s1, flags) \<Rightarrow>
          ebind (clean_with_good_mask s1 (good_for comb flags) F_block) (\<lambda>r. Inr (Some r)))"

text \<open>The output file of stage 2.\<close>

record clean_file =
  out_time_blk :: "fl list"
  freq_block_hz :: "fl list"
  s1_xx_clean :: "fl array2 option"
  mask_xx :: "fl array2 option"
  s1_yy_clean :: "fl array2 option"
  mask_yy :: "fl array2 option"
  out_M :: "int option"
  out_N :: "int option"
  out_d :: "fl option"
  out_pfa :: "fl option"
  out_M_stage1 :: "int option"
  out_F_block :: int
  out_flag_mode :: string
  out_F_eff :: nat
  out_n_blocks :: nat

text \<open>
  \<open>F_eff\<close> and \<open>n_blocks\<close> of the run: those of the polarizations that were cleaned,
  which must agree.
\<close>

definition block_counts ::
  "(fl array2 \<times> fl array2 \<times> nat \<times> nat) option \<Rightarrow> (fl array2 \<times> fl array2 \<times> nat \<times> nat) option \<Rightarrow>
     error + (nat \<times> nat)" where
  "block_counts rx ry =
     (case (rx, ry) of
        (None, None) \<Rightarrow> Inl NothingCleaned
      | (Some (cx, mx, F_eff_xx, n_blocks_xx), None) \<Rightarrow> Inr (F_eff_xx, n_blocks_xx)
      | (None, Some (cy, my, F_eff_yy, n_blocks_yy)) \<Rightarrow> Inr (F_eff_yy, n_blocks_yy)
      | (Some (cx, mx, F_eff_xx, n_blocks_xx), Some (cy, my, F_eff_yy, n_blocks_yy)) \<Rightarrow>
          if F_eff_xx \<noteq> F_eff_yy \<or> n_blocks_xx \<noteq> n_blocks_yy then Inl InconsistentBlocks
          else Inr (F_eff_xx, n_blocks_xx))"

definition freq_blocks :: "fl list \<Rightarrow> nat \<Rightarrow> nat \<Rightarrow> int \<Rightarrow> error + fl list" where
  "freq_blocks freq F_eff n_blocks F_block =
     (let freq_eff = take F_eff freq in
      if length freq_eff \<noteq> n_blocks * nat F_block then Inl ReshapeError
      else Inr (map fmean (reshape_row n_blocks (nat F_block) freq_eff)))"

definition rfi_clean :: "skstream_file \<Rightarrow> int \<Rightarrow> string \<Rightarrow> error + clean_file" where
  "rfi_clean skfile F_block flag_mode_arg =
     ebind (load_skstream skfile) (\<lambda>data.
       let freq = d_freq_hz data;
           M_stage1 = d_M data;
           flag_mode = str_lower flag_mode_arg
       in if flag_mode \<noteq> ''separate'' \<and> flag_mode \<noteq> ''or'' \<and> flag_mode \<noteq> ''and''
          then Inl BadFlagMode
          else
            ebind (good_comb flag_mode data) (\<lambda>comb.
            ebind (clean_pol comb F_block (d_xx data)) (\<lambda>rx.
            ebind (clean_pol comb F_block (d_yy data)) (\<lambda>ry.
            ebind (block_counts rx ry) (\<lambda>(F_eff, n_blocks).
            ebind (freq_blocks freq F_eff n_blocks F_block) (\<lambda>freq_blk.
              Inr \<lparr>out_time_blk = d_time_blk data,
                   freq_block_hz = freq_blk,
                   s1_xx_clean = map_option fst rx,
                   mask_xx = map_option (fst \<circ> snd) rx,
                   s1_yy_clean = map_option fst ry,
                   mask_yy = map_option (fst \<circ> snd) ry,
                   out_M = d_M data, out_N = d_N data, out_d = d_d data, out_pfa = d_pfa data,
                   out_M_stage1 =
                     (case M_stage1 of Some m \<Rightarrow> if 0 \<le> m then Some m else None | None \<Rightarrow> None),
                   out_F_block = F_block,
                   out_flag_mode = flag_mode,
                   out_F_eff = F_eff,
                   out_n_blocks = n_blocks\<rparr>))))))"

section \<open>Stage 1: \<open>ovro_lwa_sk_stream.py\<close>\<close>

text \<open>
  The input file: the two power datasets, the frequency axis, and the time axis, which
  may be missing. Only a numeric time axis is modelled (the code also parses ISO
  strings into seconds first).
\<close>

record raw_file =
  XX :: "fl array2"
  YY :: "fl array2"
  freq :: "fl list"
  time :: "fl list option"

definition load_time_array :: "fl list \<Rightarrow> nat \<Rightarrow> error + fl list" where
  "load_time_array t ns_total = (if length t \<noteq> ns_total then Inl TimeShapeError else Inr t)"

definition open_datasets :: "raw_file \<Rightarrow> error + (fl array2 \<times> fl array2 \<times> fl list \<times> fl list)" where
  "open_datasets fin =
     (let ds_xx = XX fin; ds_yy = YY fin in
      if shape0 ds_xx \<noteq> shape0 ds_yy \<or> shape1 ds_xx \<noteq> shape1 ds_yy then Inl XXYYShapeMismatch
      else let ns_total = shape0 ds_xx; nf = shape1 ds_xx in
        if length (freq fin) \<noteq> nf then Inl FreqAxisMismatch
        else ebind (case time fin of
                      Some t \<Rightarrow> load_time_array t ns_total
                    | None \<Rightarrow> Inr (map (\<lambda>i. Fin (real i)) [0..<ns_total]))
               (\<lambda>tm. Inr (ds_xx, ds_yy, freq fin, tm)))"

text \<open>
  What the code calls and this repository does not contain: the SK estimator and the
  threshold computation of \<open>pygsk\<close>, and numpy's cast to \<open>float32\<close>. They are
  parameters of the model.
\<close>

record externals =
  get_sk :: "fl list \<Rightarrow> fl list \<Rightarrow> int \<Rightarrow> int \<Rightarrow> fl \<Rightarrow> fl list"
  compute_sk_thresholds :: "int \<Rightarrow> int \<Rightarrow> fl \<Rightarrow> fl \<Rightarrow> fl \<times> fl \<times> fl"
  astype_float32 :: "fl \<Rightarrow> fl"

text \<open>\<open>block.sum(axis=0)\<close> of a block of rows of length \<open>nf\<close>.\<close>

definition sum_axis0 :: "nat \<Rightarrow> fl list list \<Rightarrow> fl list" where
  "sum_axis0 nf block = map (\<lambda>f. fsum (map (\<lambda>r. r ! f) block)) [0..<nf]"

text \<open>
  The flags of one block: zeros, then \<open>-1\<close> where \<open>sk < lower\<close>, then \<open>+1\<close> where
  \<open>sk > upper\<close>, in this order.
\<close>

definition sk_flags :: "fl \<Rightarrow> fl \<Rightarrow> fl list \<Rightarrow> int list" where
  "sk_flags lower upper sk_block =
     (let flags0 = map (\<lambda>s. 0) sk_block;
          flags1 = map2 (\<lambda>s g. if flt s lower then - 1 else g) sk_block flags0;
          flags2 = map2 (\<lambda>s g. if fgt s upper then 1 else g) sk_block flags1
      in flags2)"

text \<open>
  \<open>dset[k, :] = row\<close> on a dataset with \<open>nf\<close> columns: a row of that length is stored
  as it is, a row of length 1 is repeated, any other length is an error.
\<close>

definition store_row :: "nat \<Rightarrow> 'a list \<Rightarrow> error + 'a list" where
  "store_row nf row =
     (if length row = nf then Inr row
      else if length row = 1 then Inr (replicate nf (hd row))
      else Inl StoreBroadcastError)"

text \<open>The datasets the loop fills, one row for each block.\<close>

record out_datasets =
  dset_s1_xx :: "fl list list"
  dset_s1_yy :: "fl list list"
  dset_flags_xx :: "int list list"
  dset_flags_yy :: "int list list"
  dset_time_blk :: "fl list"

definition block_rows :: "fl array2 \<Rightarrow> int \<Rightarrow> int \<Rightarrow> nat \<Rightarrow> fl list list" where
  "block_rows ds start_idx M k =
     (let i0 = start_idx + int k * M; i1 = i0 + M in slice i0 i1 (rows ds))"

definition s1_block :: "fl array2 \<Rightarrow> int \<Rightarrow> int \<Rightarrow> nat \<Rightarrow> fl list" where
  "s1_block ds start_idx M k = sum_axis0 (shape1 ds) (block_rows ds start_idx M k)"

definition s2_block :: "fl array2 \<Rightarrow> int \<Rightarrow> int \<Rightarrow> nat \<Rightarrow> fl list" where
  "s2_block ds start_idx M k =
     sum_axis0 (shape1 ds) (map (map fsquare) (block_rows ds start_idx M k))"

definition sk_block :: "externals \<Rightarrow> fl array2 \<Rightarrow> int \<Rightarrow> int \<Rightarrow> int \<Rightarrow> fl \<Rightarrow> nat \<Rightarrow> fl list" where
  "sk_block ext ds start_idx M N d k =
     get_sk ext (s1_block ds start_idx M k) (s2_block ds start_idx M k) M N d"

text \<open>The body of the loop, for block \<open>k\<close>.\<close>

definition process_block ::
  "externals \<Rightarrow> fl array2 \<Rightarrow> fl array2 \<Rightarrow> fl list \<Rightarrow> int \<Rightarrow> int \<Rightarrow> fl \<Rightarrow> fl \<Rightarrow> fl \<Rightarrow> int \<Rightarrow>
     nat \<Rightarrow> out_datasets \<Rightarrow> error + out_datasets" where
  "process_block ext ds_xx ds_yy tm M N d lower upper start_idx k out =
     (let nf = shape1 ds_xx;
          i0 = start_idx + int k * M;
          i1 = i0 + M;
          t_block = slice i0 i1 tm;
          time_blk_k = fmean t_block;
          s1_xx_block = s1_block ds_xx start_idx M k;
          s1_yy_block = s1_block ds_yy start_idx M k;
          sk_xx_block = sk_block ext ds_xx start_idx M N d k;
          sk_yy_block = sk_block ext ds_yy start_idx M N d k;
          flags_xx = sk_flags lower upper sk_xx_block;
          flags_yy = sk_flags lower upper sk_yy_block
      in ebind (store_row nf (map (astype_float32 ext) s1_xx_block)) (\<lambda>r_s1_xx.
         ebind (store_row nf (map (astype_float32 ext) s1_yy_block)) (\<lambda>r_s1_yy.
         ebind (store_row nf flags_xx) (\<lambda>r_flags_xx.
         ebind (store_row nf flags_yy) (\<lambda>r_flags_yy.
           Inr \<lparr>dset_s1_xx = (dset_s1_xx out)[k := r_s1_xx],
                dset_s1_yy = (dset_s1_yy out)[k := r_s1_yy],
                dset_flags_xx = (dset_flags_xx out)[k := r_flags_xx],
                dset_flags_yy = (dset_flags_yy out)[k := r_flags_yy],
                dset_time_blk = (dset_time_blk out)[k := time_blk_k]\<rparr>)))))"

text \<open>\<open>for k in range(T)\<close>: the first error ends the run.\<close>

fun blocks_loop :: "(nat \<Rightarrow> 's \<Rightarrow> error + 's) \<Rightarrow> nat list \<Rightarrow> 's \<Rightarrow> error + 's" where
  "blocks_loop body [] st = Inr st"
| "blocks_loop body (k # ks) st =
     (case body k st of Inl e \<Rightarrow> Inl e | Inr st' \<Rightarrow> blocks_loop body ks st')"

text \<open>The selected number of samples, \<open>ns_sel\<close>.\<close>

definition select_samples :: "int \<Rightarrow> int \<Rightarrow> int option \<Rightarrow> error + int" where
  "select_samples ns_total start_idx ns_max =
     (case ns_max of
        None \<Rightarrow> Inr (ns_total - start_idx)
      | Some m \<Rightarrow> if m \<le> 0 then Inl NsMaxNotPositive else Inr (min m (ns_total - start_idx)))"

definition stream_sk_dualpol ::
  "externals \<Rightarrow> raw_file \<Rightarrow> int \<Rightarrow> int \<Rightarrow> fl \<Rightarrow> fl \<Rightarrow> int \<Rightarrow> int option \<Rightarrow> error + skstream_file" where
  "stream_sk_dualpol ext fin M N d pfa start_idx ns_max =
     ebind (open_datasets fin) (\<lambda>(ds_xx, ds_yy, fr, tm).
       let ns_total = int (shape0 ds_xx); nf = shape1 ds_xx in
       if start_idx < 0 \<or> ns_total \<le> start_idx then Inl StartIdxOutOfRange
       else ebind (select_samples ns_total start_idx ns_max) (\<lambda>ns_sel.
         if ns_sel \<le> 0 then Inl NoSamplesSelected
         else if M = 0 then Inl ZeroDivisionError
         else let T = ns_sel div M; ns_eff = T * M in
           if T \<le> 0 then Inl NotEnoughSamples
           else let (lower, upper, std) = compute_sk_thresholds ext M N d pfa;
                    out0 = \<lparr>dset_s1_xx = replicate (nat T) (replicate nf (Fin 0)),
                            dset_s1_yy = replicate (nat T) (replicate nf (Fin 0)),
                            dset_flags_xx = replicate (nat T) (replicate nf 0),
                            dset_flags_yy = replicate (nat T) (replicate nf 0),
                            dset_time_blk = replicate (nat T) (Fin 0)\<rparr>
             in ebind (blocks_loop
                         (process_block ext ds_xx ds_yy tm M N d lower upper start_idx)
                         [0..<nat T] out0)
                  (\<lambda>out.
                    Inr \<lparr>s1_xx = Some \<lparr>shape1 = nf, rows = dset_s1_xx out\<rparr>,
                         s1_yy = Some \<lparr>shape1 = nf, rows = dset_s1_yy out\<rparr>,
                         sk_flags_xx = Some \<lparr>shape1 = nf, rows = dset_flags_xx out\<rparr>,
                         sk_flags_yy = Some \<lparr>shape1 = nf, rows = dset_flags_yy out\<rparr>,
                         freq_hz = Some fr,
                         time_blk = Some (dset_time_blk out),
                         attr_M = Some M, attr_N = Some N, attr_d = Some d, attr_pfa = Some pfa,
                         attr_ns_total = Some ns_total, attr_ns_start = Some start_idx,
                         attr_ns_eff = Some ns_eff, attr_nfreq = Some (int nf)\<rparr>)))"


section \<open>Vocabulary of the properties\<close>

text \<open>The cell \<open>(t, f)\<close> of an array, for \<open>t\<close> and \<open>f\<close> inside its shape.\<close>

definition cell :: "'a array2 \<Rightarrow> nat \<Rightarrow> nat \<Rightarrow> 'a" where
  "cell a t f = rows a ! t ! f"

text \<open>The channels of frequency block \<open>b\<close>, the good ones among them, and their number.\<close>

definition block_channels :: "nat \<Rightarrow> nat \<Rightarrow> nat list" where
  "block_channels F_block b = [b * F_block..<b * F_block + F_block]"

definition good_channels :: "bool array2 \<Rightarrow> nat \<Rightarrow> nat \<Rightarrow> nat \<Rightarrow> nat list" where
  "good_channels good F_block t b = filter (\<lambda>j. cell good t j) (block_channels F_block b)"

definition n_good_count :: "bool array2 \<Rightarrow> nat \<Rightarrow> nat \<Rightarrow> nat \<Rightarrow> nat" where
  "n_good_count good F_block t b = length (good_channels good F_block t b)"

text \<open>
  The sum of \<open>S1\<close> over the good channels of a block, and the sum over all the channels
  of the block of \<open>S1\<close> times the mask as \<open>1.0\<close> or \<open>0.0\<close>.
\<close>

definition good_sum :: "fl array2 \<Rightarrow> bool array2 \<Rightarrow> nat \<Rightarrow> nat \<Rightarrow> nat \<Rightarrow> fl" where
  "good_sum s1 good F_block t b = fsum (map (cell s1 t) (good_channels good F_block t b))"

definition masked_sum :: "fl array2 \<Rightarrow> bool array2 \<Rightarrow> nat \<Rightarrow> nat \<Rightarrow> nat \<Rightarrow> fl" where
  "masked_sum s1 good F_block t b =
     fsum (map (\<lambda>j. fmul (cell s1 t j) (astype_float (cell good t j))) (block_channels F_block b))"

text \<open>The output record of \<open>rfi_clean\<close>, from the values the run has computed.\<close>

definition mk_clean_file ::
  "skdata \<Rightarrow> int \<Rightarrow> string \<Rightarrow> (fl array2 \<times> fl array2 \<times> nat \<times> nat) option \<Rightarrow>
   (fl array2 \<times> fl array2 \<times> nat \<times> nat) option \<Rightarrow> nat \<Rightarrow> nat \<Rightarrow> fl list \<Rightarrow> clean_file" where
  "mk_clean_file data F_block flag_mode rx ry F_eff n_blocks freq_blk =
      \<lparr>out_time_blk = d_time_blk data,
                   freq_block_hz = freq_blk,
                   s1_xx_clean = map_option fst rx,
                   mask_xx = map_option (fst \<circ> snd) rx,
                   s1_yy_clean = map_option fst ry,
                   mask_yy = map_option (fst \<circ> snd) ry,
                   out_M = d_M data, out_N = d_N data, out_d = d_d data, out_pfa = d_pfa data,
                   out_M_stage1 =
                     (case d_M data of Some m \<Rightarrow> if 0 \<le> m then Some m else None | None \<Rightarrow> None),
                   out_F_block = F_block,
                   out_flag_mode = flag_mode,
                   out_F_eff = F_eff,
                   out_n_blocks = n_blocks\<rparr>"

text \<open>A polarization is present in a file when both its \<open>s1\<close> and its flags are.\<close>

definition present_xx :: "skstream_file \<Rightarrow> bool" where
  "present_xx f = (s1_xx f \<noteq> None \<and> sk_flags_xx f \<noteq> None)"

definition present_yy :: "skstream_file \<Rightarrow> bool" where
  "present_yy f = (s1_yy f \<noteq> None \<and> sk_flags_yy f \<noteq> None)"

text \<open>Example files, for the instances below.\<close>

definition example_skfile :: skstream_file where
  "example_skfile =
     \<lparr>s1_xx = Some \<lparr>shape1 = 2, rows = [[Fin 1, Fin 2]]\<rparr>,
      s1_yy = Some \<lparr>shape1 = 2, rows = [[Fin 3, Fin 4]]\<rparr>,
      sk_flags_xx = Some \<lparr>shape1 = 2, rows = [[1, 0]]\<rparr>,
      sk_flags_yy = Some \<lparr>shape1 = 2, rows = [[0, 0]]\<rparr>,
      freq_hz = Some [Fin 10, Fin 20],
      time_blk = Some [Fin 0],
      attr_M = Some 4, attr_N = Some 24, attr_d = Some (Fin 1), attr_pfa = Some (Fin (1 / 1000)),
      attr_ns_total = Some 4, attr_ns_start = Some 0, attr_ns_eff = Some 4, attr_nfreq = Some 2\<rparr>"

definition example_clean_or :: clean_file where
  "example_clean_or =
     \<lparr>out_time_blk = [Fin 0], freq_block_hz = [Fin 15],
      s1_xx_clean = Some \<lparr>shape1 = 1, rows = [[Fin 4]]\<rparr>,
      mask_xx = Some \<lparr>shape1 = 1, rows = [[Fin 1]]\<rparr>,
      s1_yy_clean = Some \<lparr>shape1 = 1, rows = [[Fin 8]]\<rparr>,
      mask_yy = Some \<lparr>shape1 = 1, rows = [[Fin 1]]\<rparr>,
      out_M = Some 4, out_N = Some 24, out_d = Some (Fin 1), out_pfa = Some (Fin (1 / 1000)),
      out_M_stage1 = Some 4, out_F_block = 2, out_flag_mode = ''or'', out_F_eff = 2,
      out_n_blocks = 1\<rparr>"

definition example_single_pol :: skstream_file where
  "example_single_pol = example_skfile\<lparr>s1_yy := None, sk_flags_yy := None\<rparr>"

text \<open>
  The state of the datasets before the loop (HDF5 fills a new dataset with zeros), and the
  file that \<open>stream_sk_dualpol\<close> has written when the loop is over.
\<close>

definition initial_datasets :: "nat \<Rightarrow> nat \<Rightarrow> out_datasets" where
  "initial_datasets T nf =
     \<lparr>dset_s1_xx = replicate T (replicate nf (Fin 0)),
      dset_s1_yy = replicate T (replicate nf (Fin 0)),
      dset_flags_xx = replicate T (replicate nf 0),
      dset_flags_yy = replicate T (replicate nf 0),
      dset_time_blk = replicate T (Fin 0)\<rparr>"

definition mk_skstream_file ::
  "out_datasets \<Rightarrow> nat \<Rightarrow> fl list \<Rightarrow> int \<Rightarrow> int \<Rightarrow> fl \<Rightarrow> fl \<Rightarrow> int \<Rightarrow> int \<Rightarrow> int \<Rightarrow> skstream_file" where
  "mk_skstream_file out nf fr M N d pfa ns_total start_idx ns_eff =
     \<lparr>s1_xx = Some \<lparr>shape1 = nf, rows = dset_s1_xx out\<rparr>,
      s1_yy = Some \<lparr>shape1 = nf, rows = dset_s1_yy out\<rparr>,
      sk_flags_xx = Some \<lparr>shape1 = nf, rows = dset_flags_xx out\<rparr>,
      sk_flags_yy = Some \<lparr>shape1 = nf, rows = dset_flags_yy out\<rparr>,
      freq_hz = Some fr,
      time_blk = Some (dset_time_blk out),
      attr_M = Some M, attr_N = Some N, attr_d = Some d, attr_pfa = Some pfa,
      attr_ns_total = Some ns_total, attr_ns_start = Some start_idx,
      attr_ns_eff = Some ns_eff, attr_nfreq = Some (int nf)\<rparr>"

text \<open>
  The number of selected samples \<open>ns_sel\<close>, the number of time blocks \<open>T\<close>, and the time
  axis the run uses (the synthetic one, \<open>0, 1, 2, ...\<close>, if the file has none).
\<close>

definition ns_selected :: "int \<Rightarrow> int \<Rightarrow> int option \<Rightarrow> int" where
  "ns_selected ns_total start_idx ns_max =
     (case ns_max of None \<Rightarrow> ns_total - start_idx | Some m \<Rightarrow> min m (ns_total - start_idx))"

definition n_time_blocks :: "raw_file \<Rightarrow> int \<Rightarrow> int \<Rightarrow> int option \<Rightarrow> nat" where
  "n_time_blocks fin M start_idx ns_max =
     nat (ns_selected (int (shape0 (XX fin))) start_idx ns_max div M)"

definition time_axis :: "raw_file \<Rightarrow> fl list" where
  "time_axis fin =
     (case time fin of Some t \<Rightarrow> t | None \<Rightarrow> map (\<lambda>i. Fin (real i)) [0..<shape0 (XX fin)])"

text \<open>The sample indices of time block \<open>k\<close>.\<close>

definition block_samples :: "int \<Rightarrow> int \<Rightarrow> nat \<Rightarrow> nat list" where
  "block_samples start_idx M k = [nat (start_idx + int k * M)..<nat (start_idx + int k * M + M)]"

text \<open>
  The SK value of channel \<open>f\<close> in block \<open>k\<close>: the entry \<open>f\<close> of what the evaluator returns
  for the block, or its only entry when it returns a single value (which the store then
  repeats over the channels).
\<close>

definition sk_value :: "externals \<Rightarrow> fl array2 \<Rightarrow> int \<Rightarrow> int \<Rightarrow> int \<Rightarrow> fl \<Rightarrow> nat \<Rightarrow> nat \<Rightarrow> fl" where
  "sk_value ext ds start_idx M N d k f =
     (let row = sk_block ext ds start_idx M N d k
      in if length row = shape1 ds then row ! f else hd row)"

text \<open>
  Two input files agree on the selection \<open>[start_idx, start_idx + len)\<close>: same shapes,
  same frequency axis, and the same power samples and timestamps inside the selection.
  They may differ anywhere else.
\<close>

definition agree_on_selection :: "int \<Rightarrow> int \<Rightarrow> raw_file \<Rightarrow> raw_file \<Rightarrow> bool" where
  "agree_on_selection start_idx len fin fin' =
     (shape (XX fin') = shape (XX fin) \<and> shape (YY fin') = shape (YY fin) \<and>
      freq fin' = freq fin \<and>
      length (time_axis fin') = length (time_axis fin) \<and>
      slice start_idx (start_idx + len) (rows (XX fin'))
        = slice start_idx (start_idx + len) (rows (XX fin)) \<and>
      slice start_idx (start_idx + len) (rows (YY fin'))
        = slice start_idx (start_idx + len) (rows (YY fin)) \<and>
      slice start_idx (start_idx + len) (time_axis fin')
        = slice start_idx (start_idx + len) (time_axis fin))"

text \<open>
  Example inputs. \<open>example_ext\<close> is an instance of the external interface, used only to
  run the examples: its SK value is the ratio \<open>S2 / S1\<close> (zero where the ratio is not
  finite), its thresholds are \<open>1/2\<close> and \<open>5/2\<close> whatever the parameters, and its cast keeps
  the value (the sums of the examples are \<open>float32\<close> values). It stands in for \<open>pygsk\<close>
  there and is not a model of it. \<open>example_raw z\<close> has one channel and five samples, the
  last of them \<open>z\<close>; \<open>example_product\<close> is what stage 1 writes for it with \<open>M = 4\<close>.
\<close>

definition example_ext :: externals where
  "example_ext =
     \<lparr>get_sk = (\<lambda>s1 s2 M N d. map2 (\<lambda>a b. if is_finite (fdiv b a) then fdiv b a else Fin 0) s1 s2),
      compute_sk_thresholds = (\<lambda>M N d pfa. (Fin (1 / 2), Fin (5 / 2), Fin 0)),
      astype_float32 = (\<lambda>x. x)\<rparr>"

definition example_raw :: "fl \<Rightarrow> raw_file" where
  "example_raw z =
     \<lparr>XX = \<lparr>shape1 = 1, rows = [[Fin 1], [Fin 2], [Fin 3], [Fin 4], [z]]\<rparr>,
      YY = \<lparr>shape1 = 1, rows = [[Fin 2], [Fin 2], [Fin 2], [Fin 2], [z]]\<rparr>,
      freq = [Fin 10], time = None\<rparr>"

definition example_product :: skstream_file where
  "example_product =
     \<lparr>s1_xx = Some \<lparr>shape1 = 1, rows = [[Fin 10]]\<rparr>,
      s1_yy = Some \<lparr>shape1 = 1, rows = [[Fin 8]]\<rparr>,
      sk_flags_xx = Some \<lparr>shape1 = 1, rows = [[1]]\<rparr>,
      sk_flags_yy = Some \<lparr>shape1 = 1, rows = [[0]]\<rparr>,
      freq_hz = Some [Fin 10],
      time_blk = Some [Fin (3 / 2)],
      attr_M = Some 4, attr_N = Some 24, attr_d = Some (Fin 1), attr_pfa = Some (Fin (1 / 1000)),
      attr_ns_total = Some 5, attr_ns_start = Some 0, attr_ns_eff = Some 4, attr_nfreq = Some 1\<rparr>"

text \<open>
  An array, a file and the loaded data cut down to their first \<open>n\<close> frequency channels.
\<close>

definition truncate_array :: "nat \<Rightarrow> 'a array2 \<Rightarrow> 'a array2" where
  "truncate_array n a = \<lparr>shape1 = min n (shape1 a), rows = map (take n) (rows a)\<rparr>"

definition truncate_channels :: "nat \<Rightarrow> skstream_file \<Rightarrow> skstream_file" where
  "truncate_channels n f =
     f\<lparr>s1_xx := map_option (truncate_array n) (s1_xx f),
       s1_yy := map_option (truncate_array n) (s1_yy f),
       sk_flags_xx := map_option (truncate_array n) (sk_flags_xx f),
       sk_flags_yy := map_option (truncate_array n) (sk_flags_yy f),
       freq_hz := map_option (take n) (freq_hz f)\<rparr>"

definition truncate_pol :: "nat \<Rightarrow> (fl array2 \<times> fl array2) option \<Rightarrow> (fl array2 \<times> fl array2) option" where
  "truncate_pol n pol = map_option (\<lambda>(s, g). (truncate_array n s, truncate_array n g)) pol"

definition truncate_data :: "nat \<Rightarrow> skdata \<Rightarrow> skdata" where
  "truncate_data n data =
     data\<lparr>d_freq_hz := take n (d_freq_hz data),
          d_xx := truncate_pol n (d_xx data),
          d_yy := truncate_pol n (d_yy data)\<rparr>"

text \<open>The arrays of a file (of what was loaded: the flags) are rectangular.\<close>

definition wf_pol :: "(fl array2 \<times> fl array2) option \<Rightarrow> bool" where
  "wf_pol pol = (case pol of None \<Rightarrow> True | Some (s, g) \<Rightarrow> wf_array g)"

definition wf_skstream :: "skstream_file \<Rightarrow> bool" where
  "wf_skstream f =
     ((case s1_xx f of None \<Rightarrow> True | Some a \<Rightarrow> wf_array a) \<and>
      (case s1_yy f of None \<Rightarrow> True | Some a \<Rightarrow> wf_array a) \<and>
      (case sk_flags_xx f of None \<Rightarrow> True | Some a \<Rightarrow> wf_array a) \<and>
      (case sk_flags_yy f of None \<Rightarrow> True | Some a \<Rightarrow> wf_array a))"

text \<open>
  A file with one polarization and ten channels, and what stage 2 writes for it with
  \<open>F_block = 4\<close>. The second block has three good channels, and its value is
  \<open>(5 + 7 + 8) / 3 * 4\<close> in doubles, printed as \<open>26.666666666666668\<close>.
\<close>

definition example_wide :: skstream_file where
  "example_wide =
     \<lparr>s1_xx = Some \<lparr>shape1 = 10,
         rows = [[Fin 1, Fin 2, Fin 3, Fin 4, Fin 5, Fin 6, Fin 7, Fin 8, Fin 9, Fin 10]]\<rparr>,
      s1_yy = None,
      sk_flags_xx = Some \<lparr>shape1 = 10, rows = [[0, 0, 0, 0, 0, 1, 0, 0, 0, - 1]]\<rparr>,
      sk_flags_yy = None,
      freq_hz = Some [Fin 10, Fin 20, Fin 30, Fin 40, Fin 50, Fin 60, Fin 70, Fin 80, Fin 90, Fin 100],
      time_blk = Some [Fin 0],
      attr_M = Some 4, attr_N = Some 24, attr_d = Some (Fin 1), attr_pfa = Some (Fin (1 / 1000)),
      attr_ns_total = Some 4, attr_ns_start = Some 0, attr_ns_eff = Some 4, attr_nfreq = Some 10\<rparr>"

definition example_wide_clean :: clean_file where
  "example_wide_clean =
     \<lparr>out_time_blk = [Fin 0], freq_block_hz = [Fin 25, Fin 65],
      s1_xx_clean = Some \<lparr>shape1 = 2, rows = [[Fin 10, Fin (7505999378950827 / 281474976710656)]]\<rparr>,
      mask_xx = Some \<lparr>shape1 = 2, rows = [[Fin 4, Fin 3]]\<rparr>,
      s1_yy_clean = None, mask_yy = None,
      out_M = Some 4, out_N = Some 24, out_d = Some (Fin 1), out_pfa = Some (Fin (1 / 1000)),
      out_M_stage1 = Some 4, out_F_block = 4, out_flag_mode = ''separate'', out_F_eff = 8,
      out_n_blocks = 2\<rparr>"

section \<open>Auxiliary facts\<close>

lemma take_drop_nth:
  "i + n \<le> length xs \<Longrightarrow> take n (drop i xs) = map ((!) xs) [i..<i + n]"
  by (simp add: list_eq_iff_nth_eq)

lemma reshape_row_nth:
  "b < n_blocks \<Longrightarrow> reshape_row n_blocks Fb r ! b = take Fb (drop (b * Fb) r)"
  by (simp add: reshape_row_def)

lemma block_in_range:
  fixes b :: nat
  assumes "b < n" shows "b * Fb + Fb \<le> n * Fb"
proof -
  have "Suc b \<le> n" using assms by simp
  then have "Suc b * Fb \<le> n * Fb" by (rule mult_le_mono1)
  then show ?thesis by (simp add: add.commute)
qed

lemma block_channels_bound:
  "b < n \<Longrightarrow> j \<in> set (block_channels Fb b) \<Longrightarrow> j < n * Fb"
  using block_in_range [of b n Fb] by (auto simp: block_channels_def)

lemma reshape_take_block:
  assumes "b < n" "n * Fb \<le> length r"
  shows "reshape_row n Fb (take (n * Fb) r) ! b = map ((!) r) (block_channels Fb b)"
proof -
  have le: "b * Fb + Fb \<le> n * Fb" using assms(1) by (rule block_in_range)
  have "reshape_row n Fb (take (n * Fb) r) ! b = take Fb (drop (b * Fb) (take (n * Fb) r))"
    using assms(1) by (rule reshape_row_nth)
  also have "\<dots> = map ((!) (take (n * Fb) r)) [b * Fb..<b * Fb + Fb]"
    using le assms(2) by (intro take_drop_nth) simp
  also have "\<dots> = map ((!) r) [b * Fb..<b * Fb + Fb]"
    using le by (intro map_cong) auto
  finally show ?thesis by (simp add: block_channels_def)
qed

lemma length_reshape_row [simp]: "length (reshape_row n Fb r) = n"
  by (simp add: reshape_row_def)

lemma masked_block:
  assumes b: "b < n" and len: "n * Fb \<le> length r" "length g = length r"
  shows "reshape_row n Fb (map2 fmul (take (n * Fb) r) (map astype_float (take (n * Fb) g))) ! b
         = map (\<lambda>j. fmul (r ! j) (astype_float (g ! j))) (block_channels Fb b)"
proof -
  let ?p = "map2 fmul r (map astype_float g)"
  have "map2 fmul (take (n * Fb) r) (map astype_float (take (n * Fb) g)) = take (n * Fb) ?p"
    by (simp add: take_map take_zip)
  moreover have "reshape_row n Fb (take (n * Fb) ?p) ! b = map ((!) ?p) (block_channels Fb b)"
    using b len by (intro reshape_take_block) simp_all
  moreover have "map ((!) ?p) (block_channels Fb b)
      = map (\<lambda>j. fmul (r ! j) (astype_float (g ! j))) (block_channels Fb b)"
  proof (rule map_cong [OF refl])
    fix j assume "j \<in> set (block_channels Fb b)"
    then have "j < n * Fb" using b by (rule block_channels_bound [rotated])
    then show "?p ! j = fmul (r ! j) (astype_float (g ! j))" using len by simp
  qed
  ultimately show ?thesis by simp
qed

lemma good_block:
  assumes b: "b < n" and len: "n * Fb \<le> length g"
  shows "reshape_row n Fb (map astype_float (take (n * Fb) g)) ! b
         = map (\<lambda>j. astype_float (g ! j)) (block_channels Fb b)"
proof -
  let ?p = "map astype_float g"
  have "map astype_float (take (n * Fb) g) = take (n * Fb) ?p"
    by (simp add: take_map)
  moreover have "reshape_row n Fb (take (n * Fb) ?p) ! b = map ((!) ?p) (block_channels Fb b)"
    using b len by (intro reshape_take_block) simp_all
  moreover have "map ((!) ?p) (block_channels Fb b)
      = map (\<lambda>j. astype_float (g ! j)) (block_channels Fb b)"
  proof (rule map_cong [OF refl])
    fix j assume "j \<in> set (block_channels Fb b)"
    then have "j < n * Fb" using b by (rule block_channels_bound [rotated])
    then show "?p ! j = astype_float (g ! j)" using len by simp
  qed
  ultimately show ?thesis by simp
qed


lemma wf_array_row: "wf_array a \<Longrightarrow> t < shape0 a \<Longrightarrow> length (rows a ! t) = shape1 a"
  by (simp add: wf_array_def shape0_def list_all_length)

lemma clean_ok_params:
  assumes "clean_with_good_mask s1 good F_block = Inr (c, m, F_eff, n_blocks)"
  shows "shape s1 = shape good" "0 < F_block" "n_blocks = shape1 s1 div nat F_block"
        "F_eff = n_blocks * nat F_block" "0 < n_blocks"
  using assms by (auto simp: clean_with_good_mask_def Let_def split: if_splits)

lemma clean_ok_shape:
  assumes "clean_with_good_mask s1 good F_block = Inr (c, m, F_eff, n_blocks)"
  shows "shape0 c = shape0 s1" "shape1 c = n_blocks" "shape0 m = shape0 s1" "shape1 m = n_blocks"
  using assms
  by (auto simp: clean_with_good_mask_def Let_def shape_def shape0_def split: if_splits)

lemma clean_mask_cell:
  assumes wf: "wf_array s1" "wf_array good"
    and ok: "clean_with_good_mask s1 good F_block = Inr (c, m, F_eff, n_blocks)"
    and t: "t < shape0 s1" and b: "b < n_blocks"
  shows "cell m t b = fsum (map (\<lambda>j. astype_float (cell good t j)) (block_channels (nat F_block) b))"
proof -
  note p = clean_ok_params [OF ok]
  have tg: "t < shape0 good" using p(1) t by (simp add: shape_def)
  have lg: "length (rows good ! t) = shape1 s1"
    using wf_array_row [OF wf(2) tg] p(1) by (simp add: shape_def)
  have le: "n_blocks * nat F_block \<le> length (rows good ! t)"
    unfolding lg p(3) by simp
  have "rows m = map (map fsum) (map (reshape_row n_blocks (nat F_block))
          (map (map astype_float) (map (take F_eff) (rows good))))"
    using ok by (auto simp: clean_with_good_mask_def Let_def split: if_splits)
  then have "cell m t b = fsum (reshape_row n_blocks (nat F_block)
          (map astype_float (take (n_blocks * nat F_block) (rows good ! t))) ! b)"
    using tg b by (simp add: cell_def shape0_def p(4))
  then show ?thesis using good_block [OF b le] by (simp add: cell_def)
qed


lemma clean_s1_cell:
  assumes wf: "wf_array s1" "wf_array good"
    and ok: "clean_with_good_mask s1 good F_block = Inr (c, m, F_eff, n_blocks)"
    and t: "t < shape0 s1" and b: "b < n_blocks"
  shows "cell c t b =
     (if feq (cell m t b) (Fin 0) then NaN
      else fmul (if fgt (cell m t b) (Fin 0)
                 then fdiv (masked_sum s1 good (nat F_block) t b) (cell m t b) else Fin 0)
             (Fin (real_of_int F_block)))"
proof -
  note p = clean_ok_params [OF ok]
  have tg: "t < shape0 good" using p(1) t by (simp add: shape_def)
  have ls: "length (rows s1 ! t) = shape1 s1" using wf_array_row [OF wf(1) t] .
  have lg: "length (rows good ! t) = length (rows s1 ! t)"
    using wf_array_row [OF wf(2) tg] p(1) ls by (simp add: shape_def)
  have le: "n_blocks * nat F_block \<le> length (rows s1 ! t)"
    unfolding ls p(3) by simp
  define n_good where "n_good = map (map fsum) (map (reshape_row n_blocks (nat F_block))
          (map (map astype_float) (map (take F_eff) (rows good))))"
  define s1_sum where "s1_sum = map (map fsum) (map (reshape_row n_blocks (nat F_block))
          (map2 (map2 fmul) (map (take F_eff) (rows s1))
             (map (map astype_float) (map (take F_eff) (rows good)))))"
  have m: "rows m = n_good"
    using ok by (auto simp: clean_with_good_mask_def Let_def n_good_def split: if_splits)
  have c: "rows c = map2 (map2 (\<lambda>c n. if feq n (Fin 0) then NaN else c))
       (map (map (\<lambda>a. fmul a (Fin (real_of_int F_block))))
          (map2 (map2 (\<lambda>s n. if fgt n (Fin 0) then fdiv s n else Fin 0)) s1_sum n_good)) n_good"
    using ok unfolding clean_with_good_mask_def Let_def n_good_def s1_sum_def
    by (clarsimp split: if_splits simp del: map_map)
  have lens: "length (rows good) = length (rows s1)"
    using p(1) by (simp add: shape_def shape0_def)
  have tl: "t < length (rows s1)" using t by (simp add: shape0_def)
  have ln: "length n_good = length (rows s1)" "length (n_good ! t) = n_blocks"
    using tl lens by (simp_all add: n_good_def)
  have lsum: "length s1_sum = length (rows s1)" "length (s1_sum ! t) = n_blocks"
    using tl lens by (simp_all add: s1_sum_def)
  have sum_tb: "s1_sum ! t ! b = masked_sum s1 good (nat F_block) t b"
  proof -
    have "s1_sum ! t ! b = fsum (reshape_row n_blocks (nat F_block)
       (map2 fmul (take (n_blocks * nat F_block) (rows s1 ! t))
          (map astype_float (take (n_blocks * nat F_block) (rows good ! t)))) ! b)"
      using tl lens b by (simp add: s1_sum_def p(4))
    then show ?thesis
      using masked_block [OF b le lg] by (simp add: masked_sum_def cell_def)
  qed
  have "cell c t b = (if feq (n_good ! t ! b) (Fin 0) then NaN
      else fmul (if fgt (n_good ! t ! b) (Fin 0) then fdiv (s1_sum ! t ! b) (n_good ! t ! b) else Fin 0)
             (Fin (real_of_int F_block)))"
    unfolding cell_def c using tl b ln lsum by simp
  then show ?thesis by (simp add: sum_tb m cell_def)
qed



lemma bitlen_pos: "0 < n \<Longrightarrow> 1 \<le> bitlen n"
  using bitlen_bounds [of n] bitlen_nonneg [of n]
  by (cases "bitlen n = 0") auto

lemma ilog2_bounds:
  assumes "0 < a"
  shows "2 powi ilog2 a \<le> a" and "a < 2 powi (ilog2 a + 1)"
proof -
  show "2 powi ilog2 a \<le> a"
  proof (cases "1 \<le> a")
    case True
    define n where "n = \<lfloor>a\<rfloor>"
    have n: "0 < n" using True by (simp add: n_def)
    note b = bitlen_bounds [OF n] and p = bitlen_pos [OF n]
    have "(2::real) powi (bitlen n - 1) = 2 ^ nat (bitlen n - 1)"
      using p by (simp add: power_int_def)
    also have "\<dots> = real_of_int (2 ^ nat (bitlen n - 1))" by simp
    also have "\<dots> \<le> real_of_int n" using b by (intro of_int_le_iff [THEN iffD2]) simp
    also have "\<dots> \<le> a" by (simp add: n_def)
    finally show ?thesis using True by (simp add: ilog2_def n_def)
  next
    case False
    define n where "n = \<lceil>1 / a\<rceil> - 1"
    have "1 < 1 / a" using False assms by simp
    then have n: "0 < n" unfolding n_def by linarith
    note b = bitlen_bounds [OF n] and p = bitlen_pos [OF n]
    have "1 / a \<le> real_of_int (n + 1)" unfolding n_def by (simp; linarith)
    also have "\<dots> \<le> real_of_int (2 ^ nat (bitlen n))"
      using b by (intro of_int_le_iff [THEN iffD2]) simp
    finally have "1 / a \<le> 2 ^ nat (bitlen n)" by simp
    then have "1 / 2 ^ nat (bitlen n) \<le> a"
      using assms by (simp add: field_simps)
    moreover have "(2::real) powi (- bitlen n) = 1 / 2 ^ nat (bitlen n)"
      using p by (simp add: power_int_def field_simps)
    ultimately show ?thesis using False by (simp add: ilog2_def n_def)
  qed
  show "a < 2 powi (ilog2 a + 1)"
  proof (cases "1 \<le> a")
    case True
    define n where "n = \<lfloor>a\<rfloor>"
    have n: "0 < n" using True by (simp add: n_def)
    note b = bitlen_bounds [OF n] and p = bitlen_pos [OF n]
    have "a < real_of_int (n + 1)" unfolding n_def by (simp; linarith)
    also have "\<dots> \<le> real_of_int (2 ^ nat (bitlen n))"
      using b by (intro of_int_le_iff [THEN iffD2]) simp
    also have "\<dots> = 2 powi (bitlen n)" using p by (simp add: power_int_def)
    finally show ?thesis using True by (simp add: ilog2_def n_def)
  next
    case False
    define n where "n = \<lceil>1 / a\<rceil> - 1"
    have "1 < 1 / a" using False assms by simp
    then have n: "0 < n" unfolding n_def by linarith
    note b = bitlen_bounds [OF n] and p = bitlen_pos [OF n]
    have "real_of_int (2 ^ nat (bitlen n - 1)) \<le> real_of_int n"
      using b by (intro of_int_le_iff [THEN iffD2]) simp
    also have "\<dots> < 1 / a" unfolding n_def by (simp; linarith)
    finally have "2 ^ nat (bitlen n - 1) < 1 / a" by simp
    then have "a < 1 / 2 ^ nat (bitlen n - 1)"
      using assms by (simp add: field_simps)
    moreover have "(2::real) powi (- bitlen n + 1) = 1 / 2 ^ nat (bitlen n - 1)"
    proof -
      have "- bitlen n + 1 = - (bitlen n - 1)" by simp
      then have "(2::real) powi (- bitlen n + 1) = inverse (2 powi (bitlen n - 1))"
        by (simp only: power_int_minus)
      then show ?thesis using p by (simp add: power_int_def field_simps)
    qed
    ultimately show ?thesis using False by (simp add: ilog2_def n_def)
  qed
qed


lemma round_half_even_of_int [simp]: "round_half_even (of_int n) = n"
  by (simp add: round_half_even_def)

lemma round_half_even_error: "\<bar>real_of_int (round_half_even q) - q\<bar> \<le> 1 / 2"
  unfolding round_half_even_def Let_def
  by (auto simp: abs_if; linarith)

lemma round_half_even_ge: "real_of_int n \<le> q \<Longrightarrow> n \<le> round_half_even q"
proof -
  assume "real_of_int n \<le> q"
  then have "n \<le> \<lfloor>q\<rfloor>" by (simp add: le_floor_iff)
  moreover have "\<lfloor>q\<rfloor> \<le> round_half_even q"
    by (simp add: round_half_even_def Let_def)
  ultimately show ?thesis by simp
qed

lemma round_double_exact:
  assumes "x \<noteq> 0" and "\<bar>x\<bar> / 2 powi (max (ilog2 \<bar>x\<bar>) (- 1022) - 52) = real_of_int m"
    and "\<bar>x\<bar> < 2 powi 1024"
  shows "round_double x = Fin x"
proof -
  define e where "e = max (ilog2 \<bar>x\<bar>) (- 1022)"
  have p: "(0::real) < 2 powi (e - 52)" by simp
  have "real_of_int m * 2 powi (e - 52) = \<bar>x\<bar>"
    using assms(2) p unfolding e_def [symmetric] by (simp add: field_simps)
  then show ?thesis
    using assms unfolding round_double_def Let_def e_def [symmetric]
    by (simp add: abs_if split: if_splits)
qed

lemma ilog2_le:
  assumes "0 < a" "a < 2 powi k"
  shows "ilog2 a < k"
proof (rule ccontr)
  assume "\<not> ilog2 a < k"
  then have "k \<le> ilog2 a" by simp
  then have "(2::real) powi k \<le> 2 powi ilog2 a" by (intro power_int_increasing) simp_all
  with ilog2_bounds(1) [OF assms(1)] assms(2) show False by simp
qed

lemma ilog2_ge:
  assumes "0 < a" "2 powi k \<le> a"
  shows "k \<le> ilog2 a"
proof (rule ccontr)
  assume "\<not> k \<le> ilog2 a"
  then have "ilog2 a + 1 \<le> k" by simp
  then have "(2::real) powi (ilog2 a + 1) \<le> 2 powi k" by (intro power_int_increasing) simp_all
  with ilog2_bounds(2) [OF assms(1)] assms(2) show False by simp
qed

lemma round_double_of_int:
  assumes "\<bar>n\<bar> \<le> 2 ^ 53"
  shows "round_double (real_of_int n) = Fin (real_of_int n)"
proof (cases "n = 0")
  case True
  then show ?thesis by (simp add: round_double_def)
next
  case False
  define a where "a = \<bar>real_of_int n\<bar>"
  have "1 \<le> \<bar>n\<bar>" using False by simp
  then have "real_of_int 1 \<le> real_of_int \<bar>n\<bar>" by (intro of_int_le_iff [THEN iffD2])
  then have a1: "1 \<le> a" by (simp add: a_def)
  have a0: "0 < a" using a1 by simp
  have "real_of_int \<bar>n\<bar> \<le> real_of_int (2 ^ 53)" using assms by (intro of_int_le_iff [THEN iffD2])
  then have a53: "a \<le> 2 ^ 53" by (simp add: a_def)
  have e0: "0 \<le> ilog2 a" using ilog2_ge [OF a0, of 0] a1 by simp
  have "a < 2 powi 54" using a53 by simp
  then have e53: "ilog2 a \<le> 53" using ilog2_le [OF a0, of 54] by simp
  define e where "e = ilog2 a"
  have mx: "max (ilog2 a) (- 1022) = e" using e0 by (simp add: e_def)
  have "\<exists>m. a / 2 powi (e - 52) = real_of_int m"
  proof (cases "e \<le> 52")
    case True
    have "a / 2 powi (e - 52) = a * 2 powi (52 - e)"
      by (simp add: power_int_diff field_simps)
    also have "\<dots> = real_of_int (\<bar>n\<bar> * 2 ^ nat (52 - e))"
      using True by (simp add: a_def power_int_def)
    finally show ?thesis by blast
  next
    case False
    then have e: "e = 53" using e53 by (simp add: e_def)
    have "2 powi 53 \<le> a" using ilog2_bounds(1) [OF a0] by (simp add: e_def [symmetric] e)
    then have "a = 2 ^ 53" using a53 by simp
    then have "a / 2 powi (e - 52) = real_of_int (2 ^ 52)" by (simp add: e)
    then show ?thesis by blast
  qed
  then obtain m where m: "a / 2 powi (e - 52) = real_of_int m" by blast
  have lt: "a < 2 powi 1024" using a53 by simp
  show ?thesis
    using round_double_exact [of "real_of_int n" m] False m lt
    by (simp add: a_def [symmetric] mx)
qed

lemma round_double_error:
  assumes n: "2 powi (- 1022) \<le> \<bar>x\<bar>" and r: "round_double x = Fin r"
  shows "\<bar>r - x\<bar> \<le> \<bar>x\<bar> / 2 ^ 53" and "2 powi (- 1022) \<le> \<bar>r\<bar>"
proof -
  define a where "a = \<bar>x\<bar>"
  have a0: "0 < a" using n zero_less_power_int [of "2::real" "- 1022"] unfolding a_def by linarith
  then have x0: "x \<noteq> 0" by (auto simp: a_def)
  define e where "e = ilog2 a"
  have eg: "- 1022 \<le> e" unfolding e_def using a0 n by (intro ilog2_ge) (simp_all add: a_def)
  then have mx: "max (ilog2 a) (- 1022) = e" by (simp add: e_def)
  define q where "q = a / 2 powi (e - 52)"
  define m where "m = round_half_even q"
  define s where "s = real_of_int m * 2 powi (e - 52)"
  have p: "(0::real) < 2 powi (e - 52)" by simp
  have rs: "r = (if 0 < x then s else - s)"
    using r x0 unfolding round_double_def Let_def a_def [symmetric] mx q_def [symmetric]
      m_def [symmetric] s_def [symmetric]
    by (simp split: if_splits)
  have aq: "a = q * 2 powi (e - 52)" using p by (simp add: q_def)
  have "\<bar>s - a\<bar> = \<bar>real_of_int m - q\<bar> * 2 powi (e - 52)"
    unfolding s_def aq by (simp add: left_diff_distrib [symmetric] abs_mult)
  also have "\<dots> \<le> 1 / 2 * 2 powi (e - 52)"
    using round_half_even_error [of q] by (intro mult_right_mono) (simp_all add: m_def)
  also have "\<dots> = 2 powi e / 2 ^ 53" by (simp add: power_int_diff)
  also have "\<dots> \<le> a / 2 ^ 53"
    using ilog2_bounds(1) [OF a0] by (simp add: e_def divide_right_mono)
  finally have err: "\<bar>s - a\<bar> \<le> a / 2 ^ 53" .
  have "2 powi 52 \<le> q"
  proof -
    have "2 powi 52 * 2 powi (e - 52) = (2::real) powi e" by (simp add: power_int_diff)
    also have "\<dots> \<le> a" using ilog2_bounds(1) [OF a0] by (simp add: e_def)
    finally show ?thesis using p by (simp add: q_def field_simps)
  qed
  then have "real_of_int (2 ^ 52) \<le> q" by simp
  then have "2 ^ 52 \<le> m" unfolding m_def by (rule round_half_even_ge)
  then have "real_of_int (2 ^ 52) \<le> real_of_int m" by (intro of_int_le_iff [THEN iffD2])
  then have "2 ^ 52 * 2 powi (e - 52) \<le> s" unfolding s_def using p by (intro mult_right_mono) simp_all
  moreover have "(2::real) ^ 52 * 2 powi (e - 52) = 2 powi e" by (simp add: power_int_diff)
  moreover have "(2::real) powi (- 1022) \<le> 2 powi e" using eg by (intro power_int_increasing) simp_all
  ultimately have sg: "2 powi (- 1022) \<le> s" by linarith
  then have s0: "0 < s" using zero_less_power_int [of "2::real" "- 1022"] by linarith
  show "\<bar>r - x\<bar> \<le> \<bar>x\<bar> / 2 ^ 53"
    using err x0 unfolding rs a_def by (auto simp: abs_if split: if_splits)
  show "2 powi (- 1022) \<le> \<bar>r\<bar>"
    using sg s0 unfolding rs by (auto simp: abs_if)
qed

lemma round_double_zero [simp]: "round_double 0 = Fin 0"
  by (simp add: round_double_def)

lemma round_double_nat:
  assumes "n \<le> 2 ^ 53"
  shows "round_double (real n) = Fin (real n)"
proof -
  have "\<bar>int n\<bar> \<le> int (2 ^ 53)" using assms by (simp only: abs_of_nat of_nat_le_iff)
  then have "\<bar>int n\<bar> \<le> 2 ^ 53" by simp
  from round_double_of_int [OF this] show ?thesis by simp
qed

lemma round_double_one [simp]: "round_double 1 = Fin 1"
  using round_double_nat [of 1] by simp

lemma round_double_numeral [simp]:
  "(numeral k :: nat) \<le> 2 ^ 53 \<Longrightarrow> round_double (numeral k) = Fin (numeral k)"
  using round_double_nat [of "numeral k"] by simp

lemma fmul_one_right: "is_double x \<Longrightarrow> fmul x (Fin 1) = x"
  by (cases x) (simp_all add: is_double_def)

lemma fmul_finite_zero: "is_finite x \<Longrightarrow> fmul x (Fin 0) = Fin 0"
  by (cases x) (simp_all add: is_finite_def)

lemma round_half_even_le: "q \<le> real_of_int n \<Longrightarrow> round_half_even q \<le> n"
proof (cases "q = real_of_int n")
  case True
  then show ?thesis by simp
next
  case False
  assume "q \<le> real_of_int n"
  with False have "q < real_of_int n" by simp
  then have "\<lfloor>q\<rfloor> < n" by (simp add: floor_less_iff)
  moreover have "round_half_even q \<le> \<lfloor>q\<rfloor> + 1"
    by (simp add: round_half_even_def Let_def)
  ultimately show ?thesis by simp
qed

lemma round_double_idem:
  assumes r: "round_double x = Fin r"
  shows "round_double r = Fin r"
proof (cases "x = 0")
  case True
  then show ?thesis using r by (simp add: round_double_def)
next
  case x0: False
  define a where "a = \<bar>x\<bar>"
  have a0: "0 < a" using x0 by (simp add: a_def)
  define e where "e = max (ilog2 a) (- 1022)"
  define P :: real where "P = 2 powi (e - 52)"
  have P0: "0 < P" by (simp add: P_def)
  define q where "q = a / P"
  define m where "m = round_half_even q"
  define s where "s = real_of_int m * P"
  have lt: "s < 2 powi 1024" and rs: "r = (if 0 < x then s else - s)"
    using r x0 unfolding round_double_def Let_def a_def [symmetric] e_def [symmetric]
      P_def [symmetric] q_def [symmetric] m_def [symmetric] s_def [symmetric]
    by (simp_all split: if_splits)
  have "real_of_int 0 \<le> q" using a0 P0 by (simp add: q_def)
  then have m0: "0 \<le> m" unfolding m_def by (rule round_half_even_ge)
  show ?thesis
  proof (cases "m = 0")
    case True
    then show ?thesis by (simp add: rs s_def)
  next
    case False
    then have mpos: "0 < m" using m0 by simp
    then have s0: "0 < s" using P0 by (simp add: s_def)
    have abs_r: "\<bar>r\<bar> = s" using s0 by (simp add: rs)
    have r0: "r \<noteq> 0" using s0 by (simp add: rs)
    have "a < 2 powi (ilog2 a + 1)" using a0 by (rule ilog2_bounds(2))
    also have "\<dots> \<le> 2 powi (e + 1)" by (intro power_int_increasing) (simp_all add: e_def)
    also have "\<dots> = 2 powi 53 * P" by (simp add: P_def power_int_diff power_int_add)
    finally have "q < 2 powi 53" using P0 by (simp add: q_def field_simps)
    then have "q \<le> real_of_int (2 ^ 53)" by simp
    then have "m \<le> 2 ^ 53" unfolding m_def by (rule round_half_even_le)
    then have "real_of_int m \<le> real_of_int (2 ^ 53)" by (intro of_int_le_iff [THEN iffD2])
    then have "s \<le> 2 ^ 53 * P" unfolding s_def using P0 by (intro mult_right_mono) simp_all
    also have "2 ^ 53 * P = 2 powi (e + 1)" by (simp add: P_def power_int_diff power_int_add)
    finally have sle: "s \<le> 2 powi (e + 1)" .
    also have "\<dots> < 2 powi (e + 2)" by (intro power_int_strict_increasing) simp_all
    finally have "ilog2 s < e + 2" using s0 by (intro ilog2_le)
    define e' where "e' = max (ilog2 s) (- 1022)"
    have eg: "- 1022 \<le> e" by (simp add: e_def)
    have e'le: "e' \<le> e + 1" using \<open>ilog2 s < e + 2\<close> eg by (simp add: e'_def)
    have "\<exists>m'. s / 2 powi (e' - 52) = real_of_int m'"
    proof (cases "e' \<le> e")
      case True
      have "s / 2 powi (e' - 52) = real_of_int m * (2 powi (e - 52) / 2 powi (e' - 52))"
        by (simp add: s_def P_def)
      also have "2 powi (e - 52) / 2 powi (e' - 52) = (2::real) powi (e - e')"
        by (simp add: power_int_diff)
      also have "\<dots> = 2 ^ nat (e - e')" using True by (simp add: power_int_def)
      finally have "s / 2 powi (e' - 52) = real_of_int (m * 2 ^ nat (e - e'))" by simp
      then show ?thesis by blast
    next
      case False
      then have e': "e' = e + 1" using e'le by simp
      then have "ilog2 s = e + 1" using eg by (simp add: e'_def max_def split: if_splits)
      then have "2 powi (e + 1) \<le> s" using ilog2_bounds(1) [OF s0] by simp
      then have "s = 2 powi (e + 1)" using sle by simp
      then have "s / 2 powi (e' - 52) = 2 powi (e + 1) / 2 powi (e + 1 - 52)" by (simp add: e')
      also have "\<dots> = 2 powi ((e + 1) - (e + 1 - 52))" by (rule power_int_diff [symmetric]) simp
      also have "\<dots> = 2 powi 52" by simp
      also have "\<dots> = real_of_int (2 ^ 52)" by simp
      finally show ?thesis by blast
    qed
    then obtain m' where m': "\<bar>r\<bar> / 2 powi (max (ilog2 \<bar>r\<bar>) (- 1022) - 52) = real_of_int m'"
      unfolding abs_r e'_def by blast
    have "\<bar>r\<bar> < 2 powi 1024" using lt by (simp only: abs_r)
    with r0 m' show ?thesis by (rule round_double_exact)
  qed
qed

lemma is_double_round [simp]: "is_double (round_double x)"
  by (cases "round_double x") (simp_all add: is_double_def round_double_idem)

lemma is_double_special [simp]: "is_double NaN" "is_double PInf" "is_double NInf" "is_double (Fin 0)"
  by (simp_all add: is_double_def)

lemma is_double_fadd [simp]: "is_double (fadd x y)"
  by (cases x; cases y) simp_all

lemma fadd_zero_right: "is_double x \<Longrightarrow> fadd x (Fin 0) = x"
  by (cases x) (simp_all add: is_double_def)

lemma foldl_masked:
  assumes "\<forall>j\<in>set js. is_double (x j)" and "\<forall>j\<in>set js. \<not> g j \<longrightarrow> is_finite (x j)"
    and "is_double acc"
  shows "foldl fadd acc (map (\<lambda>j. fmul (x j) (astype_float (g j))) js)
         = foldl fadd acc (map x (filter g js))"
  using assms
proof (induction js arbitrary: acc)
  case Nil
  then show ?case by simp
next
  case (Cons j js)
  show ?case
  proof (cases "g j")
    case True
    have "fmul (x j) (Fin 1) = x j" using Cons.prems(1) by (simp add: fmul_one_right)
    then show ?thesis
      using Cons.IH [of "fadd acc (x j)"] Cons.prems True by (simp add: astype_float_def)
  next
    case False
    have "fmul (x j) (Fin 0) = Fin 0" using Cons.prems(2) False by (simp add: fmul_finite_zero)
    moreover have "fadd acc (Fin 0) = acc" using Cons.prems(3) by (rule fadd_zero_right)
    ultimately show ?thesis
      using Cons.IH [of acc] Cons.prems False by (simp add: astype_float_def)
  qed
qed

lemma fsum_masked:
  assumes "\<forall>j\<in>set js. is_double (x j)" and "\<forall>j\<in>set js. \<not> g j \<longrightarrow> is_finite (x j)"
  shows "fsum (map (\<lambda>j. fmul (x j) (astype_float (g j))) js) = fsum (map x (filter g js))"
  unfolding fsum_def using assms by (intro foldl_masked) simp_all


lemma round_double_not_NaN [simp]: "round_double x \<noteq> NaN"
  by (simp add: round_double_def Let_def)

lemma fdiv_fmul_error:
  assumes k: "1 \<le> k" and q: "fmul (fdiv (Fin x) (Fin k)) (Fin k) = Fin y"
    and n: "2 powi (- 1022) \<le> \<bar>x\<bar> / k"
  shows "\<bar>y - x\<bar> \<le> \<bar>x\<bar> / 2 ^ 51"
proof -
  have k0: "0 < k" using k by simp
  have d: "fdiv (Fin x) (Fin k) = round_double (x / k)" using k0 by simp
  obtain c where c: "round_double (x / k) = Fin c"
    using q k0 unfolding d by (cases "round_double (x / k)") (auto split: if_splits)
  have m: "round_double (c * k) = Fin y" using q unfolding d c by simp
  have "\<bar>x / k\<bar> = \<bar>x\<bar> / k" by (simp only: abs_divide abs_of_pos [OF k0])
  then have n': "2 powi (- 1022) \<le> \<bar>x / k\<bar>" using n by (simp only:)
  note e1 = round_double_error [OF n' c]
  have "\<bar>c\<bar> * 1 \<le> \<bar>c\<bar> * k" using k by (intro mult_left_mono) simp_all
  then have n2: "2 powi (- 1022) \<le> \<bar>c * k\<bar>" using e1(2) k0 by (simp add: abs_mult)
  note e2 = round_double_error [OF n2 m]
  define u :: real where "u = 1 / 2 ^ 53"
  have u: "0 \<le> u" "u \<le> 1" by (simp_all add: u_def)
  have B: "\<bar>c * k - x\<bar> \<le> \<bar>x\<bar> * u"
  proof -
    have "c * k - x = (c - x / k) * k" using k0 by (simp add: field_simps)
    then have "\<bar>c * k - x\<bar> = \<bar>c - x / k\<bar> * k" using k0 by (simp add: abs_mult)
    also have "\<dots> \<le> \<bar>x / k\<bar> / 2 ^ 53 * k" using e1(1) k0 by (intro mult_right_mono) simp_all
    also have "\<dots> = \<bar>x\<bar> * u" using k0 by (simp add: u_def abs_if field_simps)
    finally show ?thesis .
  qed
  have A: "\<bar>y - c * k\<bar> \<le> \<bar>c * k\<bar> * u" using e2(1) by (simp add: u_def)
  have P: "\<bar>c * k\<bar> \<le> \<bar>x\<bar> + \<bar>x\<bar> * u" using B by linarith
  have "\<bar>c * k\<bar> * u \<le> (\<bar>x\<bar> + \<bar>x\<bar> * u) * u" using P u(1) by (rule mult_right_mono)
  also have "\<dots> \<le> (\<bar>x\<bar> + \<bar>x\<bar> * 1) * u"
    using u by (intro mult_right_mono add_left_mono mult_left_mono) simp_all
  finally have "\<bar>c * k\<bar> * u \<le> 2 * \<bar>x\<bar> * u" by simp
  with A B have "\<bar>y - x\<bar> \<le> 3 * \<bar>x\<bar> * u" by linarith
  also have "\<dots> \<le> 4 * \<bar>x\<bar> * u" using u(1) by (intro mult_right_mono) simp_all
  also have "\<dots> = \<bar>x\<bar> / 2 ^ 51" by (simp add: u_def)
  finally show ?thesis .
qed

lemma fdiv_fmul_special:
  assumes "0 < k" "\<not> is_finite x \<or> x = Fin 0"
  shows "fmul (fdiv x (Fin k)) (Fin k) = x"
  using assms by (cases x) (auto simp: is_finite_def)


lemma round_double_29_7: "round_double (29 / 7) = Fin (4664442471205157 / 1125899906842624)"
  by code_simp

lemma round_double_29_7_times_7:
  "round_double (32651097298436099 / 1125899906842624) = Fin (8162774324609025 / 281474976710656)"
  by code_simp

lemma round_double_3_2: "round_double (3 / 2) = Fin (3 / 2)"
  by code_simp

lemma round_double_5_2: "round_double (5 / 2) = Fin (5 / 2)"
  by code_simp

lemma round_double_20_3: "round_double (20 / 3) = Fin (7505999378950827 / 1125899906842624)"
  by code_simp

lemma round_double_20_3_times_4:
  "round_double (7505999378950827 / 281474976710656) = Fin (7505999378950827 / 281474976710656)"
  by code_simp

lemma foldl_count:
  "a + length js \<le> 2 ^ 53 \<Longrightarrow>
   foldl fadd (Fin (real a)) (map (\<lambda>j. astype_float (g j)) js)
     = Fin (real (a + length (filter g js)))"
proof (induction js arbitrary: a)
  case Nil
  then show ?case by simp
next
  case (Cons j js)
  show ?case
  proof (cases "g j")
    case True
    have "fadd (Fin (real a)) (Fin 1) = round_double (real a + 1)" by simp
    also have "real a + 1 = real (Suc a)" by simp
    also have "round_double (real (Suc a)) = Fin (real (Suc a))"
      using Cons.prems by (intro round_double_nat) simp
    finally have "fadd (Fin (real a)) (Fin 1) = Fin (real (Suc a))" .
    then show ?thesis
      using Cons.IH [of "Suc a"] Cons.prems True by (simp add: astype_float_def)
  next
    case False
    have "round_double (real a) = Fin (real a)"
      using Cons.prems by (intro round_double_nat) simp
    then have "fadd (Fin (real a)) (Fin 0) = Fin (real a)" by simp
    then show ?thesis
      using Cons.IH [of a] Cons.prems False by (simp add: astype_float_def)
  qed
qed

lemma fsum_count:
  "length js \<le> 2 ^ 53 \<Longrightarrow>
   fsum (map (\<lambda>j. astype_float (g j)) js) = Fin (real (length (filter g js)))"
  using foldl_count [of 0 js g] by (simp add: fsum_def)

lemma feq_Fin [simp]: "feq (Fin a) (Fin b) = (a = b)"
  by (simp add: feq_def)

lemma fgt_Fin [simp]: "fgt (Fin a) (Fin b) = (b < a)"
  by (simp add: fgt_def)


lemma filter_all_length:
  assumes "length (filter P xs) = length xs"
  shows "\<forall>x\<in>set xs. P x"
proof (rule ccontr)
  assume "\<not> (\<forall>x\<in>set xs. P x)"
  then obtain x where "x \<in> set xs" "\<not> P x" by blast
  then have "length (filter P xs) < length xs" by (rule length_filter_less)
  with assms show False by simp
qed

lemma mask_cell_count:
  assumes wf: "wf_array s1" "wf_array good"
    and ok: "clean_with_good_mask s1 good F_block = Inr (c, m, F_eff, n_blocks)"
    and t: "t < shape0 s1" and b: "b < n_blocks"
    and small: "F_block \<le> 2 ^ 53"
  shows "cell m t b = Fin (real (n_good_count good (nat F_block) t b))"
proof -
  have "nat F_block \<le> nat (2 ^ 53)" using small by (rule nat_mono)
  then have "length (block_channels (nat F_block) b) \<le> 2 ^ 53"
    by (simp add: block_channels_def)
  from fsum_count [OF this, of "cell good t"] show ?thesis
    using clean_mask_cell [OF wf ok t b]
    by (simp add: n_good_count_def good_channels_def)
qed

lemma clean_cell_good_average:
  assumes wf: "wf_array s1" "wf_array good"
    and ok: "clean_with_good_mask s1 good F_block = Inr (s1_clean, mask_block, F_eff, n_blocks)"
    and t: "t < shape0 s1" and b: "b < n_blocks"
    and small: "F_block \<le> 2 ^ 53"
    and dbl: "\<forall>j\<in>set (block_channels (nat F_block) b). is_double (cell s1 t j)"
    and fin: "\<forall>j\<in>set (block_channels (nat F_block) b). \<not> cell good t j \<longrightarrow> is_finite (cell s1 t j)"
  shows "cell mask_block t b = Fin (real (n_good_count good (nat F_block) t b))"
    and "0 < n_good_count good (nat F_block) t b \<Longrightarrow>
           cell s1_clean t b =
             fmul (fdiv (good_sum s1 good (nat F_block) t b)
                        (Fin (real (n_good_count good (nat F_block) t b))))
                  (Fin (real_of_int F_block))"
    and "n_good_count good (nat F_block) t b = 0 \<Longrightarrow> cell s1_clean t b = NaN"
proof -
  show m: "cell mask_block t b = Fin (real (n_good_count good (nat F_block) t b))"
    using wf ok t b small by (rule mask_cell_count)
  have ms: "masked_sum s1 good (nat F_block) t b = good_sum s1 good (nat F_block) t b"
    unfolding masked_sum_def good_sum_def good_channels_def
    using fsum_masked [of "block_channels (nat F_block) b" "cell s1 t" "cell good t"] dbl fin
    by simp
  note c = clean_s1_cell [OF wf ok t b, unfolded m ms]
  show "cell s1_clean t b =
             fmul (fdiv (good_sum s1 good (nat F_block) t b)
                        (Fin (real (n_good_count good (nat F_block) t b))))
                  (Fin (real_of_int F_block))"
    if "0 < n_good_count good (nat F_block) t b"
    using that unfolding c by simp
  show "cell s1_clean t b = NaN" if "n_good_count good (nat F_block) t b = 0"
    using that unfolding c by simp
qed

section \<open>Stage 2: the frequency-block integrator\<close>

text \<open>
  Claim C2: for every time index \<open>t\<close> and frequency block \<open>b\<close>, where \<open>n_good(t,b) > 0\<close>
  the value \<open>s1_clean(t,b)\<close> is the sum of \<open>S1\<close> over the good channels of the block,
  divided by \<open>n_good(t,b)\<close> and multiplied by \<open>F_block\<close>, and where \<open>n_good(t,b) = 0\<close> it
  is \<open>NaN\<close>. The comments of \<open>_clean_with_good_mask\<close> say the same (``Sum of good
  samples'', ``Average of good channels''), and so does the code wherever the flagged
  channels of the block hold finite values (\<open>clean_cell_good_average\<close> above). But the code
  takes the sum over every channel of the block of \<open>s1 * good_f\<close>, and a flagged channel
  that holds an infinity (or a \<open>NaN\<close>) contributes \<open>inf * 0.0 = NaN\<close> instead of nothing:
  with \<open>S1 = [inf, 1]\<close>, the first channel flagged, and \<open>F_block = 2\<close>, the block has one
  good channel, the claim gives \<open>1 / 1 * 2 = 2\<close>, and the code stores \<open>NaN\<close>.
\<close>

theorem clean_cell_flagged_infinity:
  "clean_with_good_mask \<lparr>shape1 = 2, rows = [[PInf, Fin 1]]\<rparr>
       \<lparr>shape1 = 2, rows = [[False, True]]\<rparr> 2
     = Inr (\<lparr>shape1 = 1, rows = [[NaN]]\<rparr>, \<lparr>shape1 = 1, rows = [[Fin 1]]\<rparr>, 2, 1) \<and>
   n_good_count \<lparr>shape1 = 2, rows = [[False, True]]\<rparr> 2 0 0 = 1 \<and>
   fmul (fdiv (good_sum \<lparr>shape1 = 2, rows = [[PInf, Fin 1]]\<rparr>
                 \<lparr>shape1 = 2, rows = [[False, True]]\<rparr> 2 0 0) (Fin 1)) (Fin 2) = Fin 2 \<and>
   cell \<lparr>shape1 = 1, rows = [[NaN]]\<rparr> 0 0 \<noteq> Fin 2"
  by (simp add: clean_with_good_mask_def shape_def shape0_def Let_def reshape_row_def
        astype_float_def fsum_def fgt_def feq_def upt_rec n_good_count_def good_sum_def
        good_channels_def block_channels_def cell_def)

text \<open>
  Claim C6, as stated: in a block in which every one of the \<open>F_block\<close> channels is good,
  \<open>s1_clean(t,b)\<close> equals the sum of \<open>S1\<close> over the channels of the block. This fails on
  the code, which divides the sum by \<open>n_good\<close> and multiplies the quotient by \<open>F_block\<close>,
  each of the two operations rounding its result: with seven good channels
  \<open>5, 4, 4, 4, 4, 4, 4\<close> and \<open>F_block = 7\<close> the sum is \<open>29\<close>, the quotient \<open>29 / 7\<close> is
  rounded to a double, and seven times that double rounds to the double next above \<open>29\<close>
  (\<open>29 + 2 powi - 48\<close>, printed as \<open>29.000000000000004\<close>).
\<close>

theorem clean_cell_all_good_counterexample:
  "clean_with_good_mask \<lparr>shape1 = 7, rows = [[Fin 5, Fin 4, Fin 4, Fin 4, Fin 4, Fin 4, Fin 4]]\<rparr>
       \<lparr>shape1 = 7, rows = [[True, True, True, True, True, True, True]]\<rparr> 7
     = Inr (\<lparr>shape1 = 1, rows = [[Fin (8162774324609025 / 281474976710656)]]\<rparr>,
            \<lparr>shape1 = 1, rows = [[Fin 7]]\<rparr>, 7, 1) \<and>
   n_good_count \<lparr>shape1 = 7, rows = [[True, True, True, True, True, True, True]]\<rparr> 7 0 0 = 7 \<and>
   fsum (map (cell \<lparr>shape1 = 7, rows = [[Fin 5, Fin 4, Fin 4, Fin 4, Fin 4, Fin 4, Fin 4]]\<rparr> 0)
           (block_channels 7 0)) = Fin 29 \<and>
   cell \<lparr>shape1 = 1, rows = [[Fin (8162774324609025 / 281474976710656)]]\<rparr> 0 0 \<noteq> Fin 29"
  by (simp add: clean_with_good_mask_def shape_def shape0_def Let_def reshape_row_def
        astype_float_def fsum_def fgt_def feq_def upt_rec n_good_count_def
        good_channels_def block_channels_def cell_def round_double_29_7 round_double_29_7_times_7)

text \<open>
  Claim C6, amended: in a block in which every one of the \<open>F_block\<close> channels is good,
  \<open>s1_clean(t,b)\<close> is the sum \<open>S\<close> of \<open>S1\<close> over the channels of the block divided by
  \<open>F_block\<close> and multiplied by \<open>F_block\<close>, in double arithmetic. It is \<open>S\<close> itself when
  \<open>S\<close> is zero, an infinity or \<open>NaN\<close>; otherwise, when it is finite and the quotient
  \<open>S / F_block\<close> is not below the smallest normal double \<open>2 powi - 1022\<close>, it differs from
  \<open>S\<close> by at most \<open>\<bar>S\<bar> / 2 ^ 51\<close> (two roundings). The arrays hold doubles, and
  \<open>F_block\<close>, which is at most the number of channels, is not above \<open>2 ^ 53\<close>, so that the
  count of good channels is exact.
\<close>

theorem clean_cell_all_good:
  assumes wf: "wf_array s1" "wf_array good"
    and ok: "clean_with_good_mask s1 good F_block = Inr (s1_clean, mask_block, F_eff, n_blocks)"
    and t: "t < shape0 s1" and b: "b < n_blocks"
    and full: "n_good_count good (nat F_block) t b = nat F_block"
    and small: "F_block \<le> 2 ^ 53"
    and dbl: "\<forall>j\<in>set (block_channels (nat F_block) b). is_double (cell s1 t j)"
  shows "cell s1_clean t b
           = fmul (fdiv (fsum (map (cell s1 t) (block_channels (nat F_block) b)))
                        (Fin (real_of_int F_block)))
                  (Fin (real_of_int F_block)) \<and>
         (\<not> is_finite (fsum (map (cell s1 t) (block_channels (nat F_block) b))) \<or>
          fsum (map (cell s1 t) (block_channels (nat F_block) b)) = Fin 0 \<longrightarrow>
            cell s1_clean t b = fsum (map (cell s1 t) (block_channels (nat F_block) b))) \<and>
         (\<forall>x y. fsum (map (cell s1 t) (block_channels (nat F_block) b)) = Fin x \<and>
                cell s1_clean t b = Fin y \<and>
                2 powi (- 1022) \<le> \<bar>x\<bar> / real_of_int F_block \<longrightarrow>
                \<bar>y - x\<bar> \<le> \<bar>x\<bar> / 2 ^ 51)"
proof -
  let ?S = "fsum (map (cell s1 t) (block_channels (nat F_block) b))"
  let ?F = "real_of_int F_block"
  note p = clean_ok_params [OF ok]
  have Fpos: "0 < nat F_block" using p(2) by simp
  have F1: "1 \<le> ?F" using p(2) by simp
  have Fr: "real (nat F_block) = ?F" using p(2) by simp
  have m: "cell mask_block t b = Fin ?F"
    using mask_cell_count [OF wf ok t b small] full Fr by simp
  have "length (filter (\<lambda>j. cell good t j) (block_channels (nat F_block) b))
        = length (block_channels (nat F_block) b)"
    using full by (simp add: n_good_count_def good_channels_def block_channels_def)
  then have all: "\<forall>j\<in>set (block_channels (nat F_block) b). cell good t j"
    by (rule filter_all_length)
  have "map (\<lambda>j. fmul (cell s1 t j) (astype_float (cell good t j))) (block_channels (nat F_block) b)
        = map (cell s1 t) (block_channels (nat F_block) b)"
    using all dbl by (intro map_cong refl) (simp add: astype_float_def fmul_one_right)
  then have ms: "masked_sum s1 good (nat F_block) t b = ?S"
    unfolding masked_sum_def by (rule arg_cong)
  have c: "cell s1_clean t b = fmul (fdiv ?S (Fin ?F)) (Fin ?F)"
    using clean_s1_cell [OF wf ok t b] F1 unfolding m ms by simp
  have sp: "\<not> is_finite ?S \<or> ?S = Fin 0 \<longrightarrow> cell s1_clean t b = ?S"
    unfolding c using fdiv_fmul_special [of ?F ?S] F1 by simp
  have er: "\<forall>x y. ?S = Fin x \<and> cell s1_clean t b = Fin y \<and> 2 powi (- 1022) \<le> \<bar>x\<bar> / ?F
              \<longrightarrow> \<bar>y - x\<bar> \<le> \<bar>x\<bar> / 2 ^ 51"
  proof (intro allI impI, elim conjE)
    fix x y
    assume s: "?S = Fin x" and y: "cell s1_clean t b = Fin y"
      and n: "2 powi (- 1022) \<le> \<bar>x\<bar> / ?F"
    have "fmul (fdiv (Fin x) (Fin ?F)) (Fin ?F) = Fin y" using c y s by simp
    from fdiv_fmul_error [OF F1 this n] show "\<bar>y - x\<bar> \<le> \<bar>x\<bar> / 2 ^ 51" .
  qed
  show ?thesis by (intro conjI c sp er)
qed

theorem clean_cell_all_good_witness:
  "cell \<lparr>shape1 = 1, rows = [[Fin (8162774324609025 / 281474976710656)]]\<rparr> 0 0
     = fmul (fdiv (Fin 29) (Fin 7)) (Fin 7) \<and>
   \<bar>8162774324609025 / 281474976710656 - 29\<bar> \<le> \<bar>29 :: real\<bar> / 2 ^ 51"
proof -
  let ?A = "\<lparr>shape1 = 7, rows = [[Fin 5, Fin 4, Fin 4, Fin 4, Fin 4, Fin 4, Fin 4]]\<rparr>"
  let ?G = "\<lparr>shape1 = 7, rows = [[True, True, True, True, True, True, True]]\<rparr>"
  let ?C = "\<lparr>shape1 = 1, rows = [[Fin (8162774324609025 / 281474976710656)]]\<rparr>"
  let ?M = "\<lparr>shape1 = 1, rows = [[Fin 7]]\<rparr>"
  have ok: "clean_with_good_mask ?A ?G 7 = Inr (?C, ?M, 7, 1)"
    by (simp add: clean_with_good_mask_def shape_def shape0_def Let_def reshape_row_def
        astype_float_def fsum_def fgt_def feq_def upt_rec round_double_29_7 round_double_29_7_times_7)
  have wf: "wf_array ?A" "wf_array ?G" by (simp_all add: wf_array_def)
  have t: "0 < shape0 ?A" by (simp add: shape0_def)
  have full: "n_good_count ?G (nat 7) 0 0 = nat 7"
    by (simp add: n_good_count_def good_channels_def block_channels_def cell_def upt_rec)
  have small: "(7::int) \<le> 2 ^ 53" by simp
  have dbl: "\<forall>j\<in>set (block_channels (nat 7) 0). is_double (cell ?A 0 j)"
    by (simp add: block_channels_def cell_def is_double_def upt_rec)
  have s: "fsum (map (cell ?A 0) (block_channels (nat 7) 0)) = Fin 29"
    by (simp add: fsum_def block_channels_def cell_def upt_rec)
  have b0: "(0::nat) < 1" by simp
  have n: "2 powi (- 1022) \<le> \<bar>29 :: real\<bar> / real_of_int 7"
  proof -
    have "(2::real) powi (- 1022) \<le> 2 powi 0" by (intro power_int_increasing) simp_all
    then show ?thesis by simp
  qed
  from clean_cell_all_good [OF wf ok t b0 full small dbl, unfolded s] n
  show ?thesis by (simp add: cell_def)
qed

section \<open>Stage 2: the mask combiner\<close>

lemma ebind_Inr:
  "ebind m k = Inr y \<longleftrightarrow> (\<exists>x. m = Inr x \<and> k x = Inr y)"
  by (cases m) (simp_all add: ebind_def)

lemma rfi_clean_okD:
  assumes "rfi_clean skfile F_block mode = Inr out"
  shows "\<exists>data comb rx ry F_eff n_blocks freq_blk.
    load_skstream skfile = Inr data \<and>
    (str_lower mode = ''separate'' \<or> str_lower mode = ''or'' \<or> str_lower mode = ''and'') \<and>
    good_comb (str_lower mode) data = Inr comb \<and>
    clean_pol comb F_block (d_xx data) = Inr rx \<and>
    clean_pol comb F_block (d_yy data) = Inr ry \<and>
    block_counts rx ry = Inr (F_eff, n_blocks) \<and>
    freq_blocks (d_freq_hz data) F_eff n_blocks F_block = Inr freq_blk \<and>
    out = mk_clean_file data F_block (str_lower mode) rx ry F_eff n_blocks freq_blk"
  using assms
  by (auto simp: rfi_clean_def Let_def ebind_Inr mk_clean_file_def split: if_splits prod.splits)


lemma load_pol_Some: "load_pol (Some s) (Some g) = Some (s, amap asfloat g)"
  by (simp add: load_pol_def)

lemma load_pol_None_iff: "load_pol s g = None \<longleftrightarrow> (s = None \<or> g = None)"
  by (simp add: load_pol_def split: option.splits)

lemma load_skstream_pols:
  assumes "load_skstream f = Inr data"
  shows "d_xx data = load_pol (s1_xx f) (sk_flags_xx f)"
    and "d_yy data = load_pol (s1_yy f) (sk_flags_yy f)"
    and "freq_hz f = Some (d_freq_hz data)"
    and "time_blk f = Some (d_time_blk data)"
  using assms
  by (auto simp: load_skstream_def Let_def split: option.splits if_splits)

lemma str_lower_separate [simp]: "str_lower ''separate'' = ''separate''"
  by (simp add: str_lower_def lower_char_def)

lemma good_comb_separate [simp]: "good_comb ''separate'' data = Inr None"
  by (simp add: good_comb_def)

lemma good_comb_single:
  assumes "\<not> (has_xx data \<and> has_yy data)"
  shows "good_comb flag_mode data = Inr None"
  using assms by (auto simp: good_comb_def)

lemma has_pol_present:
  assumes "load_skstream f = Inr data"
  shows "has_xx data = present_xx f" "has_yy data = present_yy f"
  using load_skstream_pols(1,2) [OF assms]
  by (simp_all add: has_xx_def has_yy_def present_xx_def present_yy_def load_pol_None_iff)


lemma good_of_asfloat: "good_of (amap asfloat g) = amap (\<lambda>v. v = 0) g"
  by (simp add: good_of_def amap_def asfloat_def)

lemma flagged_of_asfloat: "flagged_of (amap asfloat g) = amap (\<lambda>v. v \<noteq> 0) g"
  by (simp add: flagged_of_def amap_def asfloat_def fne_def)

lemma clean_pol_Some:
  assumes "clean_pol comb F_block (Some (s1, flags)) = Inr r"
  shows "\<exists>c m F_eff n_blocks. r = Some (c, m, F_eff, n_blocks) \<and>
           clean_with_good_mask s1 (good_for comb flags) F_block = Inr (c, m, F_eff, n_blocks)"
  using assms by (auto simp: clean_pol_def ebind_Inr)

lemma clean_pol_None: "clean_pol comb F_block None = Inr r \<longleftrightarrow> r = None"
  by (auto simp: clean_pol_def)

lemma block_counts_xx:
  assumes "block_counts (Some (c, m, fe, nb)) ry = Inr (F_eff, n_blocks)"
  shows "fe = F_eff \<and> nb = n_blocks"
  using assms by (auto simp: block_counts_def split: option.splits if_splits)

lemma block_counts_yy:
  assumes "block_counts rx (Some (c, m, fe, nb)) = Inr (F_eff, n_blocks)"
  shows "fe = F_eff \<and> nb = n_blocks"
  using assms by (auto simp: block_counts_def split: option.splits if_splits)

lemma rfi_clean_xx:
  assumes ok: "rfi_clean skfile F_block mode = Inr out"
    and xx: "s1_xx skfile = Some sx" "sk_flags_xx skfile = Some fx"
  shows "\<exists>data comb cx mx. load_skstream skfile = Inr data \<and>
           good_comb (str_lower mode) data = Inr comb \<and>
           clean_with_good_mask sx (good_for comb (amap asfloat fx)) F_block
             = Inr (cx, mx, out_F_eff out, out_n_blocks out) \<and>
           s1_xx_clean out = Some cx \<and> mask_xx out = Some mx"
proof -
  from rfi_clean_okD [OF ok] obtain data comb rx ry F_eff n_blocks freq_blk where
    ld: "load_skstream skfile = Inr data"
    and gc: "good_comb (str_lower mode) data = Inr comb"
    and cx: "clean_pol comb F_block (d_xx data) = Inr rx"
    and bc: "block_counts rx ry = Inr (F_eff, n_blocks)"
    and out: "out = mk_clean_file data F_block (str_lower mode) rx ry F_eff n_blocks freq_blk"
    by blast
  have dxx: "d_xx data = Some (sx, amap asfloat fx)"
    using load_skstream_pols(1) [OF ld] xx by (simp add: load_pol_Some)
  from clean_pol_Some [OF cx [unfolded dxx]] obtain c m fe nb where
    rx: "rx = Some (c, m, fe, nb)"
    and cl: "clean_with_good_mask sx (good_for comb (amap asfloat fx)) F_block = Inr (c, m, fe, nb)"
    by blast
  have "fe = F_eff \<and> nb = n_blocks" using bc unfolding rx by (rule block_counts_xx)
  then show ?thesis
    using ld gc cl by (simp add: out mk_clean_file_def rx)
qed

lemma rfi_clean_yy:
  assumes ok: "rfi_clean skfile F_block mode = Inr out"
    and yy: "s1_yy skfile = Some sy" "sk_flags_yy skfile = Some fy"
  shows "\<exists>data comb cy my. load_skstream skfile = Inr data \<and>
           good_comb (str_lower mode) data = Inr comb \<and>
           clean_with_good_mask sy (good_for comb (amap asfloat fy)) F_block
             = Inr (cy, my, out_F_eff out, out_n_blocks out) \<and>
           s1_yy_clean out = Some cy \<and> mask_yy out = Some my"
proof -
  from rfi_clean_okD [OF ok] obtain data comb rx ry F_eff n_blocks freq_blk where
    ld: "load_skstream skfile = Inr data"
    and gc: "good_comb (str_lower mode) data = Inr comb"
    and cy: "clean_pol comb F_block (d_yy data) = Inr ry"
    and bc: "block_counts rx ry = Inr (F_eff, n_blocks)"
    and out: "out = mk_clean_file data F_block (str_lower mode) rx ry F_eff n_blocks freq_blk"
    by blast
  have dyy: "d_yy data = Some (sy, amap asfloat fy)"
    using load_skstream_pols(2) [OF ld] yy by (simp add: load_pol_Some)
  from clean_pol_Some [OF cy [unfolded dyy]] obtain c m fe nb where
    ry: "ry = Some (c, m, fe, nb)"
    and cl: "clean_with_good_mask sy (good_for comb (amap asfloat fy)) F_block = Inr (c, m, fe, nb)"
    by blast
  have "fe = F_eff \<and> nb = n_blocks" using bc unfolding ry by (rule block_counts_yy)
  then show ?thesis
    using ld gc cl by (simp add: out mk_clean_file_def ry)
qed

lemma broadcast_dim_Some:
  assumes "broadcast_dim a b = Some r"
  shows "(a = r \<or> a = 1) \<and> (b = r \<or> b = 1) \<and> (a = r \<or> b = r)"
  using assms by (auto simp: broadcast_dim_def split: if_splits)

lemma broadcast_to_cell:
  assumes wf: "wf_array a" and t: "t < shape0 a" and f: "f < shape1 a"
    and r: "shape0 a = r \<or> shape0 a = 1" and c: "shape1 a = c \<or> shape1 a = 1"
    and tr: "t < r" and fc: "f < c"
  shows "cell (broadcast_to r c a) t f = cell a t f"
proof -
  define rs where "rs = (if shape0 a = r then rows a else replicate r (hd (rows a)))"
  have rs_t: "rs ! t = rows a ! t"
  proof (cases "shape0 a = r")
    case True
    then show ?thesis by (simp add: rs_def)
  next
    case False
    with r have one: "shape0 a = 1" by simp
    with t have t0: "t = 0" by simp
    have "rows a \<noteq> []" using one by (auto simp: shape0_def)
    then have "hd (rows a) = rows a ! 0" by (rule hd_conv_nth)
    then show ?thesis using False tr t0 by (simp add: rs_def)
  qed
  have len_rs: "t < length rs" using tr t by (simp add: rs_def shape0_def)
  have len_row: "length (rows a ! t) = shape1 a" using wf t by (rule wf_array_row)
  have "cell (broadcast_to r c a) t f
        = (if shape1 a = c then rs ! t else replicate c (hd (rs ! t))) ! f"
    using len_rs by (simp add: cell_def broadcast_to_def rs_def)
  also have "\<dots> = rows a ! t ! f"
  proof (cases "shape1 a = c")
    case True
    then show ?thesis by (simp add: rs_t)
  next
    case False
    with c have one: "shape1 a = 1" by simp
    with f have f0: "f = 0" by simp
    have "rows a ! t \<noteq> []" using len_row one by auto
    then have "hd (rows a ! t) = rows a ! t ! 0" by (rule hd_conv_nth)
    then show ?thesis using False fc f0 by (simp add: rs_t)
  qed
  finally show ?thesis by (simp add: cell_def)
qed

lemma broadcast_to_shape:
  assumes "shape0 a = r \<or> shape0 a = 1"
  shows "length (rows (broadcast_to r c a)) = r"
  using assms by (auto simp: broadcast_to_def shape0_def)

lemma broadcast_to_row_length:
  assumes wf: "wf_array a" and r: "shape0 a = r \<or> shape0 a = 1" and c: "shape1 a = c \<or> shape1 a = 1"
    and t: "t < r"
  shows "length (rows (broadcast_to r c a) ! t) = c"
proof -
  define rs where "rs = (if shape0 a = r then rows a else replicate r (hd (rows a)))"
  have len_rs: "length rs = r" using r by (auto simp: rs_def shape0_def)
  have "rs ! t \<in> set (rows a)"
  proof (cases "shape0 a = r")
    case True
    then show ?thesis using t by (simp add: rs_def shape0_def)
  next
    case False
    with r have "rows a \<noteq> []" by (auto simp: shape0_def)
    then show ?thesis using False t by (simp add: rs_def)
  qed
  then have "length (rs ! t) = shape1 a" using wf by (simp add: wf_array_def list_all_iff)
  then show ?thesis
    using t len_rs by (auto simp: broadcast_to_def rs_def)
qed

lemma elementwise_cell:
  assumes wf: "wf_array x" "wf_array y"
    and ok: "elementwise g x y = Inr z"
    and t: "t < shape0 x" "t < shape0 y" and f: "f < shape1 x" "f < shape1 y"
  shows "cell z t f = g (cell x t f) (cell y t f)"
proof -
  from ok obtain r c where
    r: "broadcast_dim (shape0 x) (shape0 y) = Some r"
    and c: "broadcast_dim (shape1 x) (shape1 y) = Some c"
    and z: "z = \<lparr>shape1 = c,
               rows = map2 (map2 g) (rows (broadcast_to r c x)) (rows (broadcast_to r c y))\<rparr>"
    by (auto simp: elementwise_def split: option.splits)
  note rD = broadcast_dim_Some [OF r] and cD = broadcast_dim_Some [OF c]
  have tr: "t < r" using rD t by auto
  have fc: "f < c" using cD f by auto
  have lx: "length (rows (broadcast_to r c x)) = r" using rD by (intro broadcast_to_shape) simp
  have ly: "length (rows (broadcast_to r c y)) = r" using rD by (intro broadcast_to_shape) simp
  have rx: "length (rows (broadcast_to r c x) ! t) = c"
    using wf(1) rD cD tr by (intro broadcast_to_row_length) simp_all
  have ry: "length (rows (broadcast_to r c y) ! t) = c"
    using wf(2) rD cD tr by (intro broadcast_to_row_length) simp_all
  have "cell z t f = g (cell (broadcast_to r c x) t f) (cell (broadcast_to r c y) t f)"
    using tr fc lx ly rx ry by (simp add: z cell_def)
  moreover have "cell (broadcast_to r c x) t f = cell x t f"
    using wf(1) t(1) f(1) rD cD tr fc by (intro broadcast_to_cell) simp_all
  moreover have "cell (broadcast_to r c y) t f = cell y t f"
    using wf(2) t(2) f(2) rD cD tr fc by (intro broadcast_to_cell) simp_all
  ultimately show ?thesis by simp
qed

lemma elementwise_shape:
  assumes "elementwise g x y = Inr z" "shape x = shape y"
  shows "shape z = shape x"
  using assms
  by (auto simp: elementwise_def shape_def shape0_def broadcast_dim_def broadcast_to_def
      split: option.splits)


lemma amap_cell:
  assumes "wf_array a" "t < shape0 a" "f < shape1 a"
  shows "cell (amap g a) t f = g (cell a t f)"
  using assms wf_array_row [OF assms(1,2)] by (simp add: cell_def amap_def shape0_def)

lemma amap_shape [simp]: "shape (amap g a) = shape a" "shape0 (amap g a) = shape0 a"
  "shape1 (amap g a) = shape1 a"
  by (simp_all add: shape_def shape0_def amap_def)

lemma wf_array_amap [simp]: "wf_array (amap g a) = wf_array a"
  by (simp add: wf_array_def amap_def list_all_iff)

lemma wf_array_elementwise:
  assumes wf: "wf_array x" "wf_array y" and ok: "elementwise g x y = Inr z"
  shows "wf_array z"
proof -
  from ok obtain r c where
    r: "broadcast_dim (shape0 x) (shape0 y) = Some r"
    and c: "broadcast_dim (shape1 x) (shape1 y) = Some c"
    and z: "z = \<lparr>shape1 = c,
               rows = map2 (map2 g) (rows (broadcast_to r c x)) (rows (broadcast_to r c y))\<rparr>"
    by (auto simp: elementwise_def split: option.splits)
  note rD = broadcast_dim_Some [OF r] and cD = broadcast_dim_Some [OF c]
  have lx: "length (rows (broadcast_to r c x)) = r" using rD by (intro broadcast_to_shape) simp
  have ly: "length (rows (broadcast_to r c y)) = r" using rD by (intro broadcast_to_shape) simp
  have "length (rows z ! t) = c" if "t < r" for t
  proof -
    have rx: "length (rows (broadcast_to r c x) ! t) = c"
      using wf(1) rD cD that by (intro broadcast_to_row_length) simp_all
    have ry: "length (rows (broadcast_to r c y) ! t) = c"
      using wf(2) rD cD that by (intro broadcast_to_row_length) simp_all
    show ?thesis using that lx ly rx ry by (simp add: z)
  qed
  moreover have "length (rows z) = r" using lx ly by (simp add: z)
  moreover have "shape1 z = c" by (simp add: z)
  ultimately show ?thesis by (simp add: wf_array_def list_all_length)
qed

lemma elementwise_bounds:
  assumes ok: "elementwise g x y = Inr z"
    and t: "t < shape0 x" "t < shape0 y" and f: "f < shape1 x" "f < shape1 y"
  shows "t < shape0 z \<and> f < shape1 z"
proof -
  from ok obtain r c where
    r: "broadcast_dim (shape0 x) (shape0 y) = Some r"
    and c: "broadcast_dim (shape1 x) (shape1 y) = Some c"
    and z: "z = \<lparr>shape1 = c,
               rows = map2 (map2 g) (rows (broadcast_to r c x)) (rows (broadcast_to r c y))\<rparr>"
    by (auto simp: elementwise_def split: option.splits)
  note rD = broadcast_dim_Some [OF r] and cD = broadcast_dim_Some [OF c]
  have tr: "t < r" using rD t by auto
  have fc: "f < c" using cD f by auto
  have lx: "length (rows (broadcast_to r c x)) = r" using rD by (intro broadcast_to_shape) simp
  have ly: "length (rows (broadcast_to r c y)) = r" using rD by (intro broadcast_to_shape) simp
  show ?thesis using tr fc lx ly by (simp add: z shape0_def)
qed

lemma good_comb_both:
  assumes "d_xx data = Some (sx, gx)" "d_yy data = Some (sy, gy)"
    and "flag_mode = ''or'' \<or> flag_mode = ''and''"
    and "good_comb flag_mode data = Inr comb"
  shows "\<exists>flagged.
           (if flag_mode = ''or'' then elementwise (\<or>) (flagged_of gx) (flagged_of gy)
            else elementwise (\<and>) (flagged_of gx) (flagged_of gy)) = Inr flagged \<and>
           comb = Some (amap Not flagged)"
  using assms
  by (auto simp: good_comb_def has_xx_def has_yy_def Let_def ebind_Inr split: if_splits)

lemma good_comb_cell:
  assumes dxx: "d_xx data = Some (sx, amap asfloat fx)"
    and dyy: "d_yy data = Some (sy, amap asfloat fy)"
    and mode: "flag_mode = ''or'' \<or> flag_mode = ''and''"
    and gc: "good_comb flag_mode data = Inr comb"
    and wf: "wf_array fx" "wf_array fy"
  shows "\<exists>g. comb = Some g \<and> (shape fx = shape fy \<longrightarrow> shape g = shape fx) \<and>
           (\<forall>t f. t < shape0 fx \<and> t < shape0 fy \<and> f < shape1 fx \<and> f < shape1 fy \<longrightarrow>
              cell g t f =
                (if flag_mode = ''or'' then \<not> (cell fx t f \<noteq> 0 \<or> cell fy t f \<noteq> 0)
                 else \<not> (cell fx t f \<noteq> 0 \<and> cell fy t f \<noteq> 0)))"
proof -
  let ?fxx = "amap (\<lambda>v. v \<noteq> 0) fx" and ?fyy = "amap (\<lambda>v. v \<noteq> 0) fy"
  from good_comb_both [OF dxx dyy mode gc, unfolded flagged_of_asfloat] obtain flagged where
    el: "(if flag_mode = ''or'' then elementwise (\<or>) ?fxx ?fyy
         else elementwise (\<and>) ?fxx ?fyy) = Inr flagged"
    and comb: "comb = Some (amap Not flagged)"
    by blast
  have wff: "wf_array ?fxx" "wf_array ?fyy" using wf by simp_all
  have wfl: "wf_array flagged"
    using el wf_array_elementwise [OF wff] by (auto split: if_splits)
  have cells: "cell (amap Not flagged) t f =
                (if flag_mode = ''or'' then \<not> (cell fx t f \<noteq> 0 \<or> cell fy t f \<noteq> 0)
                 else \<not> (cell fx t f \<noteq> 0 \<and> cell fy t f \<noteq> 0))"
    if b: "t < shape0 fx" "t < shape0 fy" "f < shape1 fx" "f < shape1 fy" for t f
  proof -
    have tf: "t < shape0 flagged \<and> f < shape1 flagged"
    proof (cases "flag_mode = ''or''")
      case True
      with el have "elementwise (\<or>) ?fxx ?fyy = Inr flagged" by simp
      from elementwise_bounds [OF this] b show ?thesis by simp
    next
      case False
      with el have "elementwise (\<and>) ?fxx ?fyy = Inr flagged" by simp
      from elementwise_bounds [OF this] b show ?thesis by simp
    qed
    have cf: "cell flagged t f =
       (if flag_mode = ''or'' then cell ?fxx t f \<or> cell ?fyy t f
        else cell ?fxx t f \<and> cell ?fyy t f)"
    proof (cases "flag_mode = ''or''")
      case True
      with el have "elementwise (\<or>) ?fxx ?fyy = Inr flagged" by simp
      from elementwise_cell [OF wff this] b True show ?thesis by simp
    next
      case False
      with el have "elementwise (\<and>) ?fxx ?fyy = Inr flagged" by simp
      from elementwise_cell [OF wff this] b False show ?thesis by simp
    qed
    have "cell (amap Not flagged) t f = (\<not> cell flagged t f)"
      using wfl tf by (intro amap_cell) simp_all
    moreover have "cell ?fxx t f = (cell fx t f \<noteq> 0)"
      using wf(1) b(1,3) by (rule amap_cell)
    moreover have "cell ?fyy t f = (cell fy t f \<noteq> 0)"
      using wf(2) b(2,4) by (rule amap_cell)
    ultimately show ?thesis
      using cf by simp
  qed
  have shp: "shape (amap Not flagged) = shape fx" if "shape fx = shape fy"
  proof -
    have eq: "shape ?fxx = shape ?fyy" using that by simp
    have "shape flagged = shape ?fxx"
    proof (cases "flag_mode = ''or''")
      case True
      with el have "elementwise (\<or>) ?fxx ?fyy = Inr flagged" by simp
      then show ?thesis using eq by (rule elementwise_shape)
    next
      case False
      with el have "elementwise (\<and>) ?fxx ?fyy = Inr flagged" by simp
      then show ?thesis using eq by (rule elementwise_shape)
    qed
    then show ?thesis by simp
  qed
  show ?thesis using cells shp comb by blast
qed

text \<open>
  Claim C3: when both polarizations are present, the \<open>or\<close> policy produces for every cell
  \<open>(t,f)\<close> the combined good mask \<open>NOT (flag_xx(t,f) \<noteq> 0 OR flag_yy(t,f) \<noteq> 0)\<close>, the \<open>and\<close>
  policy produces \<open>NOT (flag_xx(t,f) \<noteq> 0 AND flag_yy(t,f) \<noteq> 0)\<close>, and this single combined
  mask is the one both polarizations are integrated with. The cells are those of the two
  flag arrays; the flag arrays are rectangular.
\<close>

theorem shared_mask_both_polarizations:
  assumes ok: "rfi_clean skfile F_block mode = Inr out"
    and mode: "str_lower mode = ''or'' \<or> str_lower mode = ''and''"
    and xx: "s1_xx skfile = Some sx" "sk_flags_xx skfile = Some fx"
    and yy: "s1_yy skfile = Some sy" "sk_flags_yy skfile = Some fy"
    and wf: "wf_array fx" "wf_array fy"
  shows "\<exists>good_comb cx mx cy my.
           (\<forall>t f. t < shape0 fx \<and> t < shape0 fy \<and> f < shape1 fx \<and> f < shape1 fy \<longrightarrow>
              cell good_comb t f =
                (if str_lower mode = ''or'' then \<not> (cell fx t f \<noteq> 0 \<or> cell fy t f \<noteq> 0)
                 else \<not> (cell fx t f \<noteq> 0 \<and> cell fy t f \<noteq> 0))) \<and>
           (shape fx = shape fy \<longrightarrow> shape good_comb = shape fx) \<and>
           clean_with_good_mask sx good_comb F_block = Inr (cx, mx, out_F_eff out, out_n_blocks out) \<and>
           s1_xx_clean out = Some cx \<and> mask_xx out = Some mx \<and>
           clean_with_good_mask sy good_comb F_block = Inr (cy, my, out_F_eff out, out_n_blocks out) \<and>
           s1_yy_clean out = Some cy \<and> mask_yy out = Some my"
proof -
  from rfi_clean_xx [OF ok xx] obtain data comb cx mx where
    ld: "load_skstream skfile = Inr data"
    and gc: "good_comb (str_lower mode) data = Inr comb"
    and clx: "clean_with_good_mask sx (good_for comb (amap asfloat fx)) F_block
             = Inr (cx, mx, out_F_eff out, out_n_blocks out)"
    and ox: "s1_xx_clean out = Some cx" "mask_xx out = Some mx"
    by blast
  from rfi_clean_yy [OF ok yy] ld gc obtain cy my where
    cly: "clean_with_good_mask sy (good_for comb (amap asfloat fy)) F_block
             = Inr (cy, my, out_F_eff out, out_n_blocks out)"
    and oy: "s1_yy_clean out = Some cy" "mask_yy out = Some my"
    by auto
  have dxx: "d_xx data = Some (sx, amap asfloat fx)"
    using load_skstream_pols(1) [OF ld] xx by (simp add: load_pol_Some)
  have dyy: "d_yy data = Some (sy, amap asfloat fy)"
    using load_skstream_pols(2) [OF ld] yy by (simp add: load_pol_Some)
  from good_comb_cell [OF dxx dyy mode gc wf] obtain g where
    comb: "comb = Some g"
    and shp: "shape fx = shape fy \<longrightarrow> shape g = shape fx"
    and cells: "\<forall>t f. t < shape0 fx \<and> t < shape0 fy \<and> f < shape1 fx \<and> f < shape1 fy \<longrightarrow>
              cell g t f =
                (if str_lower mode = ''or'' then \<not> (cell fx t f \<noteq> 0 \<or> cell fy t f \<noteq> 0)
                 else \<not> (cell fx t f \<noteq> 0 \<and> cell fy t f \<noteq> 0))"
    by blast
  show ?thesis
    using cells shp clx cly ox oy unfolding comb good_for_def
    by (intro exI [of _ g] exI [of _ cx] exI [of _ mx] exI [of _ cy] exI [of _ my]) simp
qed

theorem shared_mask_both_polarizations_witness:
  "rfi_clean example_skfile 2 ''OR'' = Inr example_clean_or \<and>
   (\<exists>good_comb cx mx cy my.
      (\<forall>t f. t < 1 \<and> f < 2 \<longrightarrow>
         cell good_comb t f = (\<not> (cell \<lparr>shape1 = 2, rows = [[1, 0 :: int]]\<rparr> t f \<noteq> 0 \<or>
                                  cell \<lparr>shape1 = 2, rows = [[0, 0 :: int]]\<rparr> t f \<noteq> 0))) \<and>
      shape good_comb = (1, 2) \<and>
      clean_with_good_mask \<lparr>shape1 = 2, rows = [[Fin 1, Fin 2]]\<rparr> good_comb 2 = Inr (cx, mx, 2, 1) \<and>
      s1_xx_clean example_clean_or = Some cx \<and> mask_xx example_clean_or = Some mx \<and>
      clean_with_good_mask \<lparr>shape1 = 2, rows = [[Fin 3, Fin 4]]\<rparr> good_comb 2 = Inr (cy, my, 2, 1) \<and>
      s1_yy_clean example_clean_or = Some cy \<and> mask_yy example_clean_or = Some my)"
proof -
  have ok: "rfi_clean example_skfile 2 ''OR'' = Inr example_clean_or"
    by (simp add: rfi_clean_def load_skstream_def load_pol_def example_skfile_def
        example_single_pol_def example_clean_or_def str_lower_def lower_char_def good_comb_def
        has_xx_def has_yy_def flagged_of_def amap_def asfloat_def fne_def feq_def elementwise_def
        broadcast_dim_def broadcast_to_def shape0_def ebind_def clean_pol_def good_for_def
        good_of_def block_counts_def freq_blocks_def clean_with_good_mask_def shape_def Let_def
        reshape_row_def astype_float_def fsum_def fmean_def fgt_def upt_rec)
  have mode: "str_lower ''OR'' = ''or'' \<or> str_lower ''OR'' = ''and''"
    by (simp add: str_lower_def lower_char_def)
  have m: "str_lower ''OR'' = ''or''"
    by (simp add: str_lower_def lower_char_def)
  have f: "s1_xx example_skfile = Some \<lparr>shape1 = 2, rows = [[Fin 1, Fin 2]]\<rparr>"
    "sk_flags_xx example_skfile = Some \<lparr>shape1 = 2, rows = [[1, 0]]\<rparr>"
    "s1_yy example_skfile = Some \<lparr>shape1 = 2, rows = [[Fin 3, Fin 4]]\<rparr>"
    "sk_flags_yy example_skfile = Some \<lparr>shape1 = 2, rows = [[0, 0]]\<rparr>"
    by (simp_all add: example_skfile_def)
  have wf: "wf_array \<lparr>shape1 = 2, rows = [[1, 0 :: int]]\<rparr>"
    "wf_array \<lparr>shape1 = 2, rows = [[0, 0 :: int]]\<rparr>"
    by (simp_all add: wf_array_def)
  from shared_mask_both_polarizations [OF ok mode f wf] ok
  show ?thesis
    by (simp add: m shape_def shape0_def example_clean_or_def)
qed

text \<open>
  Claim C8: if the \<open>or\<close> or \<open>and\<close> policy is requested while exactly one polarization is
  present, the mask combiner does not fail (it builds no shared mask), and the present
  polarization is integrated with its own good mask (its flag \<open>== 0\<close>): the run is the
  run under \<open>separate\<close>, but for the policy name it records.
\<close>

theorem single_polarization_fallback:
  assumes mode: "str_lower mode = ''or'' \<or> str_lower mode = ''and''"
    and one: "present_xx skfile \<noteq> present_yy skfile"
  shows "(\<forall>data. load_skstream skfile = Inr data \<longrightarrow> good_comb (str_lower mode) data = Inr None) \<and>
         rfi_clean skfile F_block mode
           = map_sum id (\<lambda>out. out\<lparr>out_flag_mode := str_lower mode\<rparr>)
               (rfi_clean skfile F_block ''separate'') \<and>
         (\<forall>out sx fx. rfi_clean skfile F_block mode = Inr out \<longrightarrow>
            s1_xx skfile = Some sx \<longrightarrow> sk_flags_xx skfile = Some fx \<longrightarrow>
            (\<exists>cx mx. clean_with_good_mask sx (amap (\<lambda>v. v = 0) fx) F_block
                        = Inr (cx, mx, out_F_eff out, out_n_blocks out) \<and>
                     s1_xx_clean out = Some cx \<and> mask_xx out = Some mx)) \<and>
         (\<forall>out sy fy. rfi_clean skfile F_block mode = Inr out \<longrightarrow>
            s1_yy skfile = Some sy \<longrightarrow> sk_flags_yy skfile = Some fy \<longrightarrow>
            (\<exists>cy my. clean_with_good_mask sy (amap (\<lambda>v. v = 0) fy) F_block
                        = Inr (cy, my, out_F_eff out, out_n_blocks out) \<and>
                     s1_yy_clean out = Some cy \<and> mask_yy out = Some my))"
proof -
  have none: "good_comb (str_lower mode) data = Inr None"
    if ld: "load_skstream skfile = Inr data" for data
  proof -
    have "\<not> (has_xx data \<and> has_yy data)"
      using has_pol_present [OF ld] one by auto
    then show ?thesis by (rule good_comb_single)
  qed
  have same: "rfi_clean skfile F_block mode
           = map_sum id (\<lambda>out. out\<lparr>out_flag_mode := str_lower mode\<rparr>)
               (rfi_clean skfile F_block ''separate'')"
  proof (cases "load_skstream skfile")
    case (Inl e)
    then show ?thesis by (simp add: rfi_clean_def ebind_def)
  next
    case (Inr data)
    show ?thesis
      using mode none [OF Inr] Inr
      by (auto simp: rfi_clean_def ebind_def Let_def split: sum.splits prod.splits)
  qed
  have xx: "\<exists>cx mx. clean_with_good_mask sx (amap (\<lambda>v. v = 0) fx) F_block
                        = Inr (cx, mx, out_F_eff out, out_n_blocks out) \<and>
                     s1_xx_clean out = Some cx \<and> mask_xx out = Some mx"
    if "rfi_clean skfile F_block mode = Inr out" "s1_xx skfile = Some sx"
       "sk_flags_xx skfile = Some fx" for out sx fx
    using rfi_clean_xx [OF that] none
    by (auto simp: good_for_def good_of_asfloat)
  have yy: "\<exists>cy my. clean_with_good_mask sy (amap (\<lambda>v. v = 0) fy) F_block
                        = Inr (cy, my, out_F_eff out, out_n_blocks out) \<and>
                     s1_yy_clean out = Some cy \<and> mask_yy out = Some my"
    if "rfi_clean skfile F_block mode = Inr out" "s1_yy skfile = Some sy"
       "sk_flags_yy skfile = Some fy" for out sy fy
    using rfi_clean_yy [OF that] none
    by (auto simp: good_for_def good_of_asfloat)
  show ?thesis
    using none same xx yy by blast
qed

theorem single_polarization_fallback_witness:
  "rfi_clean example_single_pol 2 ''and''
     = map_sum id (\<lambda>out. out\<lparr>out_flag_mode := ''and''\<rparr>)
         (rfi_clean example_single_pol 2 ''separate'') \<and>
   rfi_clean example_single_pol 2 ''and''
     = Inr (example_clean_or\<lparr>s1_xx_clean := Some \<lparr>shape1 = 1, rows = [[Fin 4]]\<rparr>,
                               s1_yy_clean := None, mask_yy := None, out_flag_mode := ''and''\<rparr>) \<and>
   (\<exists>cx mx. clean_with_good_mask \<lparr>shape1 = 2, rows = [[Fin 1, Fin 2]]\<rparr>
               (amap (\<lambda>v. v = 0) \<lparr>shape1 = 2, rows = [[1, 0 :: int]]\<rparr>) 2 = Inr (cx, mx, 2, 1) \<and>
            cx = \<lparr>shape1 = 1, rows = [[Fin 4]]\<rparr>)"
proof -
  have m: "str_lower ''and'' = ''and''"
    by (simp add: str_lower_def lower_char_def)
  have mode: "str_lower ''and'' = ''or'' \<or> str_lower ''and'' = ''and''"
    using m by simp
  have one: "present_xx example_single_pol \<noteq> present_yy example_single_pol"
    by (simp add: present_xx_def present_yy_def example_single_pol_def example_skfile_def)
  have ok: "rfi_clean example_single_pol 2 ''and''
     = Inr (example_clean_or\<lparr>s1_xx_clean := Some \<lparr>shape1 = 1, rows = [[Fin 4]]\<rparr>,
                               s1_yy_clean := None, mask_yy := None, out_flag_mode := ''and''\<rparr>)"
    by (simp add: rfi_clean_def load_skstream_def load_pol_def example_skfile_def
        example_single_pol_def example_clean_or_def str_lower_def lower_char_def good_comb_def
        has_xx_def has_yy_def flagged_of_def amap_def asfloat_def fne_def feq_def elementwise_def
        broadcast_dim_def broadcast_to_def shape0_def ebind_def clean_pol_def good_for_def
        good_of_def block_counts_def freq_blocks_def clean_with_good_mask_def shape_def Let_def
        reshape_row_def astype_float_def fsum_def fmean_def fgt_def upt_rec)
  have f: "s1_xx example_single_pol = Some \<lparr>shape1 = 2, rows = [[Fin 1, Fin 2]]\<rparr>"
    "sk_flags_xx example_single_pol = Some \<lparr>shape1 = 2, rows = [[1, 0]]\<rparr>"
    by (simp_all add: example_single_pol_def example_skfile_def)
  from single_polarization_fallback [OF mode one, of 2] ok f
  show ?thesis
    by (simp add: m example_clean_or_def)
qed

section \<open>Stage 1: the block reducer and the flagger\<close>

lemma open_datasets_okD:
  assumes "open_datasets fin = Inr (ds_xx, ds_yy, fr, tm)"
  shows "ds_xx = XX fin" "ds_yy = YY fin" "fr = freq fin"
    "shape0 (YY fin) = shape0 (XX fin)" "shape1 (YY fin) = shape1 (XX fin)"
    "length (freq fin) = shape1 (XX fin)"
    "tm = (case time fin of Some t \<Rightarrow> t | None \<Rightarrow> map (\<lambda>i. Fin (real i)) [0..<shape0 (XX fin)])"
    "length tm = shape0 (XX fin)"
  using assms
  by (auto simp: open_datasets_def Let_def ebind_Inr load_time_array_def
      split: if_splits option.splits)

lemma stream_okD:
  assumes "stream_sk_dualpol ext fin M N d pfa start_idx ns_max = Inr out"
  shows "\<exists>tm ns_sel lower upper std dsets.
     open_datasets fin = Inr (XX fin, YY fin, freq fin, tm) \<and>
     0 \<le> start_idx \<and> start_idx < int (shape0 (XX fin)) \<and>
     select_samples (int (shape0 (XX fin))) start_idx ns_max = Inr ns_sel \<and>
     0 < ns_sel \<and> M \<noteq> 0 \<and> 0 < ns_sel div M \<and>
     compute_sk_thresholds ext M N d pfa = (lower, upper, std) \<and>
     blocks_loop (process_block ext (XX fin) (YY fin) tm M N d lower upper start_idx)
        [0..<nat (ns_sel div M)] (initial_datasets (nat (ns_sel div M)) (shape1 (XX fin)))
       = Inr dsets \<and>
     out = mk_skstream_file dsets (shape1 (XX fin)) (freq fin) M N d pfa
             (int (shape0 (XX fin))) start_idx (ns_sel div M * M)"
proof -
  from assms obtain ds_xx ds_yy fr tm where
    od: "open_datasets fin = Inr (ds_xx, ds_yy, fr, tm)"
    by (auto simp: stream_sk_dualpol_def ebind_Inr)
  note o = open_datasets_okD [OF od]
  show ?thesis
    using assms od unfolding o(1-3)
    by (auto simp: stream_sk_dualpol_def ebind_Inr Let_def initial_datasets_def
        mk_skstream_file_def split: if_splits prod.splits)
qed

lemma process_block_D:
  assumes "process_block ext dx dy tm M N d lo up start k st = Inr st'"
  shows "\<exists>r1 r2 r3 r4.
     store_row (shape1 dx) (map (astype_float32 ext) (s1_block dx start M k)) = Inr r1 \<and>
     store_row (shape1 dx) (map (astype_float32 ext) (s1_block dy start M k)) = Inr r2 \<and>
     store_row (shape1 dx) (sk_flags lo up (sk_block ext dx start M N d k)) = Inr r3 \<and>
     store_row (shape1 dx) (sk_flags lo up (sk_block ext dy start M N d k)) = Inr r4 \<and>
     dset_s1_xx st' = (dset_s1_xx st)[k := r1] \<and>
     dset_s1_yy st' = (dset_s1_yy st)[k := r2] \<and>
     dset_flags_xx st' = (dset_flags_xx st)[k := r3] \<and>
     dset_flags_yy st' = (dset_flags_yy st)[k := r4] \<and>
     dset_time_blk st' =
       (dset_time_blk st)[k := fmean (slice (start + int k * M) (start + int k * M + M) tm)]"
  using assms
  by (auto simp: process_block_def Let_def ebind_Inr)

lemma blocks_loop_update:
  assumes step: "\<And>k st st'. body k st = Inr st' \<Longrightarrow> \<exists>v. R k v \<and> proj st' = (proj st)[k := v]"
    and loop: "blocks_loop body ks st = Inr st'"
  shows "length (proj st') = length (proj st) \<and>
         (\<forall>k. k \<in> set ks \<longrightarrow> k < length (proj st) \<longrightarrow> R k (proj st' ! k)) \<and>
         (\<forall>k. k \<notin> set ks \<longrightarrow> proj st' ! k = proj st ! k)"
  using loop
proof (induction ks arbitrary: st)
  case Nil
  then show ?case by simp
next
  case (Cons k0 ks)
  from Cons.prems obtain st1 where
    b: "body k0 st = Inr st1" and l: "blocks_loop body ks st1 = Inr st'"
    by (auto split: sum.splits)
  from step [OF b] obtain v where v: "R k0 v" and p1: "proj st1 = (proj st)[k0 := v]"
    by blast
  note ih = Cons.IH [OF l]
  have len: "length (proj st') = length (proj st)" using ih p1 by simp
  have inn: "R k (proj st' ! k)" if "k \<in> set (k0 # ks)" "k < length (proj st)" for k
  proof (cases "k \<in> set ks")
    case True
    then show ?thesis using ih that(2) p1 by simp
  next
    case False
    with that(1) have "k = k0" by simp
    moreover have "proj st' ! k = proj st1 ! k" using ih False by simp
    ultimately show ?thesis using v p1 that(2) by simp
  qed
  have out: "proj st' ! k = proj st ! k" if "k \<notin> set (k0 # ks)" for k
  proof -
    have "proj st' ! k = proj st1 ! k" using ih that by simp
    then show ?thesis using that p1 by simp
  qed
  show ?case using len inn out by blast
qed

lemma blocks_loop_cong:
  assumes "\<And>k st. k \<in> set ks \<Longrightarrow> body k st = body' k st"
  shows "blocks_loop body ks st = blocks_loop body' ks st"
  using assms by (induction ks arbitrary: st) (auto split: sum.splits)

lemma div_pos_imp_pos:
  fixes a M :: int
  assumes "0 < a" "0 < a div M"
  shows "0 < M"
  using assms nonneg1_imp_zdiv_pos_iff [of a M] by simp

lemma select_samples_Inr:
  "select_samples ns_total start_idx ns_max = Inr ns_sel \<Longrightarrow>
     ns_sel = ns_selected ns_total start_idx ns_max \<and> ns_sel \<le> ns_total - start_idx"
  by (auto simp: select_samples_def ns_selected_def split: option.splits if_splits)

lemma div_mult_le_int:
  fixes a M :: int
  assumes "0 < M"
  shows "a div M * M \<le> a"
proof -
  have "a div M * M + a mod M = a" by simp
  moreover have "0 \<le> a mod M" using assms by simp
  ultimately show ?thesis by linarith
qed

lemma stream_ok_facts:
  assumes ok: "stream_sk_dualpol ext fin M N d pfa start_idx ns_max = Inr out"
  shows "0 < M" "0 \<le> start_idx" "start_idx < int (shape0 (XX fin))"
    "0 < n_time_blocks fin M start_idx ns_max"
    "start_idx + int (n_time_blocks fin M start_idx ns_max) * M \<le> int (shape0 (XX fin))"
    "shape0 (YY fin) = shape0 (XX fin)" "shape1 (YY fin) = shape1 (XX fin)"
    "length (freq fin) = shape1 (XX fin)" "length (time_axis fin) = shape0 (XX fin)"
    "\<exists>lower upper std dsets.
       compute_sk_thresholds ext M N d pfa = (lower, upper, std) \<and>
       blocks_loop
         (process_block ext (XX fin) (YY fin) (time_axis fin) M N d lower upper start_idx)
         [0..<n_time_blocks fin M start_idx ns_max]
         (initial_datasets (n_time_blocks fin M start_idx ns_max) (shape1 (XX fin))) = Inr dsets \<and>
       out = mk_skstream_file dsets (shape1 (XX fin)) (freq fin) M N d pfa
               (int (shape0 (XX fin))) start_idx
               (int (n_time_blocks fin M start_idx ns_max) * M)"
proof -
  from stream_okD [OF ok] obtain tm ns_sel lower upper std dsets where
    od: "open_datasets fin = Inr (XX fin, YY fin, freq fin, tm)"
    and st: "0 \<le> start_idx" "start_idx < int (shape0 (XX fin))"
    and sel: "select_samples (int (shape0 (XX fin))) start_idx ns_max = Inr ns_sel"
    and pos: "0 < ns_sel" "0 < ns_sel div M"
    and thr: "compute_sk_thresholds ext M N d pfa = (lower, upper, std)"
    and loop: "blocks_loop (process_block ext (XX fin) (YY fin) tm M N d lower upper start_idx)
        [0..<nat (ns_sel div M)] (initial_datasets (nat (ns_sel div M)) (shape1 (XX fin)))
       = Inr dsets"
    and out: "out = mk_skstream_file dsets (shape1 (XX fin)) (freq fin) M N d pfa
             (int (shape0 (XX fin))) start_idx (ns_sel div M * M)"
    by blast
  note o = open_datasets_okD [OF od]
  note s = select_samples_Inr [OF sel]
  have M: "0 < M" using pos by (rule div_pos_imp_pos)
  have T: "n_time_blocks fin M start_idx ns_max = nat (ns_sel div M)"
    using s by (simp add: n_time_blocks_def)
  have iT: "int (n_time_blocks fin M start_idx ns_max) = ns_sel div M"
    using T pos(2) by simp
  have le: "ns_sel div M * M \<le> ns_sel" using M by (rule div_mult_le_int)
  have tm: "tm = time_axis fin" using o(7) by (simp add: time_axis_def)
  show "0 < M" by (rule M)
  show "0 \<le> start_idx" "start_idx < int (shape0 (XX fin))" by (rule st)+
  show "0 < n_time_blocks fin M start_idx ns_max" using T pos(2) by simp
  show "start_idx + int (n_time_blocks fin M start_idx ns_max) * M \<le> int (shape0 (XX fin))"
    using le s iT by simp
  show "shape0 (YY fin) = shape0 (XX fin)" "shape1 (YY fin) = shape1 (XX fin)"
    "length (freq fin) = shape1 (XX fin)" by (rule o(4) o(5) o(6))+
  show "length (time_axis fin) = shape0 (XX fin)" using o(8) tm by simp
  show "\<exists>lower upper std dsets.
       compute_sk_thresholds ext M N d pfa = (lower, upper, std) \<and>
       blocks_loop
         (process_block ext (XX fin) (YY fin) (time_axis fin) M N d lower upper start_idx)
         [0..<n_time_blocks fin M start_idx ns_max]
         (initial_datasets (n_time_blocks fin M start_idx ns_max) (shape1 (XX fin))) = Inr dsets \<and>
       out = mk_skstream_file dsets (shape1 (XX fin)) (freq fin) M N d pfa
               (int (shape0 (XX fin))) start_idx
               (int (n_time_blocks fin M start_idx ns_max) * M)"
    using thr loop out pos(2) unfolding T tm by auto
qed

lemma stream_rows:
  assumes ok: "stream_sk_dualpol ext fin M N d pfa start_idx ns_max = Inr out"
    and thr: "compute_sk_thresholds ext M N d pfa = (lower, upper, std)"
    and k: "k < n_time_blocks fin M start_idx ns_max"
  shows "\<exists>sxx syy gxx gyy tb.
    s1_xx out = Some \<lparr>shape1 = shape1 (XX fin), rows = sxx\<rparr> \<and>
    s1_yy out = Some \<lparr>shape1 = shape1 (XX fin), rows = syy\<rparr> \<and>
    sk_flags_xx out = Some \<lparr>shape1 = shape1 (XX fin), rows = gxx\<rparr> \<and>
    sk_flags_yy out = Some \<lparr>shape1 = shape1 (XX fin), rows = gyy\<rparr> \<and>
    time_blk out = Some tb \<and>
    length sxx = n_time_blocks fin M start_idx ns_max \<and>
    length syy = n_time_blocks fin M start_idx ns_max \<and>
    length gxx = n_time_blocks fin M start_idx ns_max \<and>
    length gyy = n_time_blocks fin M start_idx ns_max \<and>
    length tb = n_time_blocks fin M start_idx ns_max \<and>
    store_row (shape1 (XX fin)) (map (astype_float32 ext) (s1_block (XX fin) start_idx M k))
      = Inr (sxx ! k) \<and>
    store_row (shape1 (XX fin)) (map (astype_float32 ext) (s1_block (YY fin) start_idx M k))
      = Inr (syy ! k) \<and>
    store_row (shape1 (XX fin)) (sk_flags lower upper (sk_block ext (XX fin) start_idx M N d k))
      = Inr (gxx ! k) \<and>
    store_row (shape1 (XX fin)) (sk_flags lower upper (sk_block ext (YY fin) start_idx M N d k))
      = Inr (gyy ! k) \<and>
    tb ! k = fmean (slice (start_idx + int k * M) (start_idx + int k * M + M) (time_axis fin))"
proof -
  let ?T = "n_time_blocks fin M start_idx ns_max"
  let ?nf = "shape1 (XX fin)"
  let ?body = "process_block ext (XX fin) (YY fin) (time_axis fin) M N d lower upper start_idx"
  from stream_ok_facts(10) [OF ok] thr obtain dsets where
    loop: "blocks_loop ?body [0..<?T] (initial_datasets ?T ?nf) = Inr dsets"
    and out: "out = mk_skstream_file dsets ?nf (freq fin) M N d pfa
               (int (shape0 (XX fin))) start_idx (int ?T * M)"
    by auto
  have kin: "k \<in> set [0..<?T]" using k by simp
  have u1: "length (dset_s1_xx dsets) = ?T \<and>
      store_row ?nf (map (astype_float32 ext) (s1_block (XX fin) start_idx M k))
        = Inr (dset_s1_xx dsets ! k)"
    using blocks_loop_update [where body = ?body and proj = dset_s1_xx
        and R = "\<lambda>k v. store_row ?nf (map (astype_float32 ext) (s1_block (XX fin) start_idx M k)) = Inr v",
        OF _ loop] kin k
    by (fastforce dest: process_block_D simp: initial_datasets_def)
  have u2: "length (dset_s1_yy dsets) = ?T \<and>
      store_row ?nf (map (astype_float32 ext) (s1_block (YY fin) start_idx M k))
        = Inr (dset_s1_yy dsets ! k)"
    using blocks_loop_update [where body = ?body and proj = dset_s1_yy
        and R = "\<lambda>k v. store_row ?nf (map (astype_float32 ext) (s1_block (YY fin) start_idx M k)) = Inr v",
        OF _ loop] kin k
    by (fastforce dest: process_block_D simp: initial_datasets_def)
  have u3: "length (dset_flags_xx dsets) = ?T \<and>
      store_row ?nf (sk_flags lower upper (sk_block ext (XX fin) start_idx M N d k))
        = Inr (dset_flags_xx dsets ! k)"
    using blocks_loop_update [where body = ?body and proj = dset_flags_xx
        and R = "\<lambda>k v. store_row ?nf (sk_flags lower upper (sk_block ext (XX fin) start_idx M N d k)) = Inr v",
        OF _ loop] kin k
    by (fastforce dest: process_block_D simp: initial_datasets_def)
  have u4: "length (dset_flags_yy dsets) = ?T \<and>
      store_row ?nf (sk_flags lower upper (sk_block ext (YY fin) start_idx M N d k))
        = Inr (dset_flags_yy dsets ! k)"
    using blocks_loop_update [where body = ?body and proj = dset_flags_yy
        and R = "\<lambda>k v. store_row ?nf (sk_flags lower upper (sk_block ext (YY fin) start_idx M N d k)) = Inr v",
        OF _ loop] kin k
    by (fastforce dest: process_block_D simp: initial_datasets_def)
  have u5: "length (dset_time_blk dsets) = ?T \<and>
      dset_time_blk dsets ! k
        = fmean (slice (start_idx + int k * M) (start_idx + int k * M + M) (time_axis fin))"
    using blocks_loop_update [where body = ?body and proj = dset_time_blk
        and R = "\<lambda>k v. v = fmean (slice (start_idx + int k * M) (start_idx + int k * M + M) (time_axis fin))",
        OF _ loop] kin k
    by (fastforce dest: process_block_D simp: initial_datasets_def)
  show ?thesis
    using u1 u2 u3 u4 u5 by (simp add: out mk_skstream_file_def)
qed

lemma sk_flags_length [simp]: "length (sk_flags lo up row) = length row"
  by (simp add: sk_flags_def Let_def)

lemma sk_flags_nth:
  assumes "i < length row"
  shows "sk_flags lo up row ! i
         = (if fgt (row ! i) up then 1 else if flt (row ! i) lo then - 1 else 0)"
  using assms by (simp add: sk_flags_def Let_def)

lemma store_row_Inr:
  assumes "store_row nf row = Inr r"
  shows "length r = nf"
    and "f < nf \<Longrightarrow> r ! f = (if length row = nf then row ! f else hd row)"
    and "length row = nf \<or> length row = 1"
  using assms by (auto simp: store_row_def split: if_splits)

lemma flt_trans: "flt a b \<Longrightarrow> flt b c \<Longrightarrow> flt a c"
  by (cases a; cases b; cases c) simp_all

lemma flt_irrefl: "\<not> flt a a"
  by (cases a) simp_all

lemma flt_NaN_right [simp]: "flt x NaN = False"
  by (cases x) simp_all

lemma stored_flag:
  assumes st: "store_row nf (sk_flags lo up row) = Inr r" and f: "f < nf"
  shows "r ! f = (let sk = (if length row = nf then row ! f else hd row)
                  in if fgt sk up then 1 else if flt sk lo then - 1 else 0)"
proof (cases "length row = nf")
  case True
  then show ?thesis
    using store_row_Inr(2) [OF st f] f by (simp add: sk_flags_nth)
next
  case False
  with store_row_Inr(3) [OF st] have one: "length row = 1" by simp
  then have ne: "row \<noteq> []" by auto
  have "length (sk_flags lo up row) \<noteq> 0" using one by simp
  then have ne2: "sk_flags lo up row \<noteq> []" by (metis list.size(3))
  have "hd (sk_flags lo up row) = sk_flags lo up row ! 0" using ne2 by (rule hd_conv_nth)
  also have "\<dots> = (if fgt (row ! 0) up then 1 else if flt (row ! 0) lo then - 1 else 0)"
    using one by (simp add: sk_flags_nth)
  also have "row ! 0 = hd row" using ne by (simp add: hd_conv_nth)
  finally show ?thesis
    using store_row_Inr(2) [OF st f] False by simp
qed

lemma slice_map_nth:
  assumes "0 \<le> i0" "i0 \<le> i1" "nat i1 \<le> length xs"
  shows "slice i0 i1 xs = map ((!) xs) [nat i0..<nat i1]"
proof -
  have "nat i0 + nat (i1 - i0) = nat i1" using assms(1,2) by simp
  then show ?thesis
    using take_drop_nth [of "nat i0" "nat (i1 - i0)" xs] assms(3)
    by (simp add: slice_def)
qed

lemma sum_axis0_nth:
  "f < nf \<Longrightarrow> sum_axis0 nf block ! f = fsum (map (\<lambda>r. r ! f) block)"
  by (simp add: sum_axis0_def)

lemma sum_axis0_length [simp]: "length (sum_axis0 nf block) = nf"
  by (simp add: sum_axis0_def)

lemma block_in_file:
  assumes M: "0 < M" and k: "k < T" and le: "start_idx + int T * M \<le> n" and s: "0 \<le> start_idx"
  shows "0 \<le> start_idx + int k * M" "start_idx + int k * M + M \<le> n"
proof -
  show "0 \<le> start_idx + int k * M" using s M by simp
  have "int (Suc k) \<le> int T" using k by simp
  then have "int (Suc k) * M \<le> int T * M" using M by (intro mult_right_mono) simp_all
  then show "start_idx + int k * M + M \<le> n" using le by (simp add: algebra_simps)
qed

lemma block_rows_samples:
  assumes M: "0 < M" and k: "k < T" and le: "start_idx + int T * M \<le> int (shape0 ds)"
    and s: "0 \<le> start_idx"
  shows "block_rows ds start_idx M k = map ((!) (rows ds)) (block_samples start_idx M k)"
proof -
  note b = block_in_file [OF M k le s]
  have "nat (start_idx + int k * M + M) \<le> length (rows ds)"
    using b(2) by (simp add: shape0_def)
  then show ?thesis
    using b(1) M by (simp add: block_rows_def Let_def block_samples_def slice_map_nth)
qed

lemma s1_block_cell:
  assumes M: "0 < M" and k: "k < T" and le: "start_idx + int T * M \<le> int (shape0 ds)"
    and s: "0 \<le> start_idx" and f: "f < shape1 ds"
  shows "s1_block ds start_idx M k ! f
         = fsum (map (\<lambda>i. cell ds i f) (block_samples start_idx M k))"
  using f
  by (simp add: s1_block_def sum_axis0_nth block_rows_samples [OF M k le s] cell_def comp_def)

lemma s2_block_cell:
  assumes M: "0 < M" and k: "k < T" and le: "start_idx + int T * M \<le> int (shape0 ds)"
    and s: "0 \<le> start_idx" and f: "f < shape1 ds" and wf: "wf_array ds"
  shows "s2_block ds start_idx M k ! f
         = fsum (map (\<lambda>i. fsquare (cell ds i f)) (block_samples start_idx M k))"
proof -
  note b = block_in_file [OF M k le s]
  have "map (\<lambda>i. map fsquare (rows ds ! i) ! f) (block_samples start_idx M k)
        = map (\<lambda>i. fsquare (rows ds ! i ! f)) (block_samples start_idx M k)"
  proof (rule map_cong [OF refl])
    fix i assume "i \<in> set (block_samples start_idx M k)"
    then have "i < shape0 ds" using b by (auto simp: block_samples_def)
    then have "length (rows ds ! i) = shape1 ds" using wf
      by (simp add: wf_array_def shape0_def list_all_length)
    then show "map fsquare (rows ds ! i) ! f = fsquare (rows ds ! i ! f)" using f by simp
  qed
  moreover have "s2_block ds start_idx M k ! f
      = fsum (map (\<lambda>i. map fsquare (rows ds ! i) ! f) (block_samples start_idx M k))"
    using f
    by (simp add: s2_block_def sum_axis0_nth block_rows_samples [OF M k le s] comp_def)
  ultimately show ?thesis by (simp only: cell_def)
qed

lemma stored_s1:
  assumes st: "store_row nf (map g (sum_axis0 nf block)) = Inr r" and f: "f < nf"
  shows "r ! f = g (sum_axis0 nf block ! f)"
  using store_row_Inr(2) [OF st f] f by simp

lemma open_datasets_iff:
  "open_datasets fin = Inr (XX fin, YY fin, freq fin, time_axis fin) \<longleftrightarrow>
     shape0 (YY fin) = shape0 (XX fin) \<and> shape1 (YY fin) = shape1 (XX fin) \<and>
     length (freq fin) = shape1 (XX fin) \<and> length (time_axis fin) = shape0 (XX fin)"
  by (auto simp: open_datasets_def Let_def ebind_def load_time_array_def time_axis_def
      split: option.splits)

lemma nat_int_mult: "0 \<le> M \<Longrightarrow> nat (int k * M) = k * nat M"
  by (simp add: nat_mult_distrib)

lemma slice_of_slice:
  assumes s: "0 \<le> start_idx" and M: "0 < M" and k: "k < T"
  shows "slice (start_idx + int k * M) (start_idx + int k * M + M) xs
         = slice (int k * M) (int k * M + M) (slice start_idx (start_idx + int T * M) xs)"
proof -
  have M0: "0 \<le> M" using M by simp
  have a: "nat (start_idx + int k * M) = k * nat M + nat start_idx"
    using s M by (simp add: nat_add_distrib nat_int_mult)
  have "k * nat M + nat M \<le> T * nat M" using k by (rule block_in_range)
  then have b: "nat M \<le> T * nat M - k * nat M" by simp
  show ?thesis
    using b by (simp add: slice_def a drop_take min_absorb1 nat_int_mult [OF M0])
qed

lemma stream_okI:
  assumes "open_datasets fin = Inr (XX fin, YY fin, freq fin, tm)"
    and "0 \<le> start_idx" "start_idx < int (shape0 (XX fin))"
    and "select_samples (int (shape0 (XX fin))) start_idx ns_max = Inr ns_sel"
    and "0 < ns_sel" "M \<noteq> 0" "0 < ns_sel div M"
    and "compute_sk_thresholds ext M N d pfa = (lower, upper, std)"
    and "blocks_loop (process_block ext (XX fin) (YY fin) tm M N d lower upper start_idx)
        [0..<nat (ns_sel div M)] (initial_datasets (nat (ns_sel div M)) (shape1 (XX fin)))
       = Inr dsets"
  shows "stream_sk_dualpol ext fin M N d pfa start_idx ns_max
         = Inr (mk_skstream_file dsets (shape1 (XX fin)) (freq fin) M N d pfa
             (int (shape0 (XX fin))) start_idx (ns_sel div M * M))"
  using assms
  by (simp add: stream_sk_dualpol_def ebind_def Let_def initial_datasets_def mk_skstream_file_def)

lemma process_block_agree:
  assumes s: "0 \<le> start_idx" and M: "0 < M" and k: "k < T"
    and sh: "shape1 dx' = shape1 dx" "shape1 dy' = shape1 dy"
    and ax: "slice start_idx (start_idx + int T * M) (rows dx')
             = slice start_idx (start_idx + int T * M) (rows dx)"
    and ay: "slice start_idx (start_idx + int T * M) (rows dy')
             = slice start_idx (start_idx + int T * M) (rows dy)"
    and at: "slice start_idx (start_idx + int T * M) tm'
             = slice start_idx (start_idx + int T * M) tm"
  shows "process_block ext dx' dy' tm' M N d lo up start_idx k st
         = process_block ext dx dy tm M N d lo up start_idx k st"
proof -
  have bx: "block_rows dx' start_idx M k = block_rows dx start_idx M k"
    by (simp add: block_rows_def Let_def slice_of_slice [OF s M k] ax)
  have by': "block_rows dy' start_idx M k = block_rows dy start_idx M k"
    by (simp add: block_rows_def Let_def slice_of_slice [OF s M k] ay)
  have bt: "slice (start_idx + int k * M) (start_idx + int k * M + M) tm'
          = slice (start_idx + int k * M) (start_idx + int k * M + M) tm"
    by (simp add: slice_of_slice [OF s M k] at)
  show ?thesis
    by (simp add: process_block_def Let_def s1_block_def s2_block_def sk_block_def bx by' bt sh)
qed

lemma stream_flags_wf:
  assumes ok: "stream_sk_dualpol ext fin M N d pfa start_idx ns_max = Inr out"
  shows "\<exists>sxx syy gxx gyy.
     s1_xx out = Some sxx \<and> s1_yy out = Some syy \<and>
     sk_flags_xx out = Some gxx \<and> sk_flags_yy out = Some gyy \<and>
     wf_array gxx \<and> wf_array gyy \<and>
     shape gxx = (n_time_blocks fin M start_idx ns_max, shape1 (XX fin)) \<and>
     shape gyy = (n_time_blocks fin M start_idx ns_max, shape1 (XX fin)) \<and>
     freq_hz out = Some (freq fin) \<and> time_blk out \<noteq> None"
proof -
  let ?T = "n_time_blocks fin M start_idx ns_max" and ?nf = "shape1 (XX fin)"
  obtain lower upper std where thr: "compute_sk_thresholds ext M N d pfa = (lower, upper, std)"
    by (cases "compute_sk_thresholds ext M N d pfa") auto
  note fc = stream_ok_facts [OF ok]
  from fc(10) obtain dsets where
    out: "out = mk_skstream_file dsets ?nf (freq fin) M N d pfa
               (int (shape0 (XX fin))) start_idx (int ?T * M)"
    by auto
  have rows_k: "length (dset_flags_xx dsets) = ?T \<and> length (dset_flags_yy dsets) = ?T \<and>
     (k < ?T \<longrightarrow> length (dset_flags_xx dsets ! k) = ?nf \<and> length (dset_flags_yy dsets ! k) = ?nf)"
    for k
  proof (cases "k < ?T")
    case True
    from stream_rows [OF ok thr True] show ?thesis
      by (auto simp: out mk_skstream_file_def dest: store_row_Inr(1))
  next
    case False
    from stream_rows [OF ok thr fc(4)] show ?thesis
      using False by (auto simp: out mk_skstream_file_def)
  qed
  have "wf_array \<lparr>shape1 = ?nf, rows = dset_flags_xx dsets\<rparr>"
    "wf_array \<lparr>shape1 = ?nf, rows = dset_flags_yy dsets\<rparr>"
    using rows_k by (simp_all add: wf_array_def list_all_length)
  then show ?thesis
    using rows_k [of 0] by (simp add: out mk_skstream_file_def shape_def shape0_def)
qed

lemma example_stream:
  "stream_sk_dualpol example_ext (example_raw z) 4 24 (Fin 1)
     (Fin (1 / 1000)) 0 None = Inr example_product"
  by (simp add: stream_sk_dualpol_def open_datasets_def example_raw_def example_ext_def
      example_product_def shape0_def Let_def ebind_def select_samples_def process_block_def
      s1_block_def s2_block_def sk_block_def block_rows_def slice_def sum_axis0_def fsum_def
      fmean_def sk_flags_def store_row_def fgt_def fsquare_def upt_rec is_finite_def
      round_double_3_2)

lemma example_blocks: "n_time_blocks (example_raw z) 4 0 None = 1"
  by (simp add: n_time_blocks_def ns_selected_def example_raw_def shape0_def)

lemma example_sk:
  "sk_value example_ext (XX (example_raw z)) 0 4 24 (Fin 1) 0 0 = Fin 3"
  "sk_value example_ext (YY (example_raw z)) 0 4 24 (Fin 1) 0 0 = Fin 2"
  by (simp_all add: sk_value_def sk_block_def s1_block_def s2_block_def block_rows_def slice_def
      sum_axis0_def fsum_def fsquare_def example_raw_def example_ext_def Let_def upt_rec
      is_finite_def)

lemma select_samples_pos:
  assumes "select_samples ns_total start_idx ns_max = Inr ns_sel" "start_idx < ns_total"
  shows "0 < ns_sel"
  using assms by (auto simp: select_samples_def split: option.splits if_splits)

lemma stream_sk_dualpol_failures:
  shows "shape (XX fin) \<noteq> shape (YY fin) \<Longrightarrow>
           stream_sk_dualpol ext fin M N d pfa start_idx ns_max = Inl XXYYShapeMismatch"
    and "shape (XX fin) = shape (YY fin) \<Longrightarrow> length (freq fin) \<noteq> shape1 (XX fin) \<Longrightarrow>
           stream_sk_dualpol ext fin M N d pfa start_idx ns_max = Inl FreqAxisMismatch"
    and "open_datasets fin = Inr r \<Longrightarrow> start_idx < 0 \<or> int (shape0 (XX fin)) \<le> start_idx \<Longrightarrow>
           stream_sk_dualpol ext fin M N d pfa start_idx ns_max = Inl StartIdxOutOfRange"
    and "open_datasets fin = Inr r \<Longrightarrow> 0 \<le> start_idx \<Longrightarrow> start_idx < int (shape0 (XX fin)) \<Longrightarrow>
           ns_max = Some m \<Longrightarrow> m \<le> 0 \<Longrightarrow>
           stream_sk_dualpol ext fin M N d pfa start_idx ns_max = Inl NsMaxNotPositive"
    and "open_datasets fin = Inr r \<Longrightarrow> 0 \<le> start_idx \<Longrightarrow> start_idx < int (shape0 (XX fin)) \<Longrightarrow>
           select_samples (int (shape0 (XX fin))) start_idx ns_max = Inr ns_sel \<Longrightarrow> M = 0 \<Longrightarrow>
           stream_sk_dualpol ext fin M N d pfa start_idx ns_max = Inl ZeroDivisionError"
    and "open_datasets fin = Inr r \<Longrightarrow> 0 \<le> start_idx \<Longrightarrow> start_idx < int (shape0 (XX fin)) \<Longrightarrow>
           select_samples (int (shape0 (XX fin))) start_idx ns_max = Inr ns_sel \<Longrightarrow> M < 0 \<Longrightarrow>
           stream_sk_dualpol ext fin M N d pfa start_idx ns_max = Inl NotEnoughSamples"
    and "open_datasets fin = Inr r \<Longrightarrow> 0 \<le> start_idx \<Longrightarrow> start_idx < int (shape0 (XX fin)) \<Longrightarrow>
           select_samples (int (shape0 (XX fin))) start_idx ns_max = Inr ns_sel \<Longrightarrow>
           0 < M \<Longrightarrow> ns_sel < M \<Longrightarrow>
           stream_sk_dualpol ext fin M N d pfa start_idx ns_max = Inl NotEnoughSamples"
proof -
  show "shape (XX fin) \<noteq> shape (YY fin) \<Longrightarrow>
           stream_sk_dualpol ext fin M N d pfa start_idx ns_max = Inl XXYYShapeMismatch"
    by (auto simp: stream_sk_dualpol_def open_datasets_def Let_def ebind_def shape_def)
  show "shape (XX fin) = shape (YY fin) \<Longrightarrow> length (freq fin) \<noteq> shape1 (XX fin) \<Longrightarrow>
           stream_sk_dualpol ext fin M N d pfa start_idx ns_max = Inl FreqAxisMismatch"
    by (auto simp: stream_sk_dualpol_def open_datasets_def Let_def ebind_def shape_def)
  show "stream_sk_dualpol ext fin M N d pfa start_idx ns_max = Inl StartIdxOutOfRange"
    if "open_datasets fin = Inr r" "start_idx < 0 \<or> int (shape0 (XX fin)) \<le> start_idx"
  proof -
    obtain a b c e where r: "r = (a, b, c, e)" by (cases r) auto
    note o = open_datasets_okD [OF that(1) [unfolded r]]
    show ?thesis
      using that(2) by (auto simp: stream_sk_dualpol_def that(1) r o(1) ebind_def Let_def)
  qed
  show "stream_sk_dualpol ext fin M N d pfa start_idx ns_max = Inl NsMaxNotPositive"
    if "open_datasets fin = Inr r" "0 \<le> start_idx" "start_idx < int (shape0 (XX fin))"
      "ns_max = Some m" "m \<le> 0"
  proof -
    obtain a b c e where r: "r = (a, b, c, e)" by (cases r) auto
    note o = open_datasets_okD [OF that(1) [unfolded r]]
    show ?thesis
      using that(2-5)
      by (auto simp: stream_sk_dualpol_def that(1) r o(1) ebind_def Let_def select_samples_def)
  qed
  show "stream_sk_dualpol ext fin M N d pfa start_idx ns_max = Inl ZeroDivisionError"
    if "open_datasets fin = Inr r" "0 \<le> start_idx" "start_idx < int (shape0 (XX fin))"
      "select_samples (int (shape0 (XX fin))) start_idx ns_max = Inr ns_sel" "M = 0"
  proof -
    obtain a b c e where r: "r = (a, b, c, e)" by (cases r) auto
    note o = open_datasets_okD [OF that(1) [unfolded r]]
    have "0 < ns_sel" using that(4,3) by (rule select_samples_pos)
    then show ?thesis
      using that(2-5)
      by (auto simp: stream_sk_dualpol_def that(1) r o(1) ebind_def Let_def)
  qed
  show "stream_sk_dualpol ext fin M N d pfa start_idx ns_max = Inl NotEnoughSamples"
    if "open_datasets fin = Inr r" "0 \<le> start_idx" "start_idx < int (shape0 (XX fin))"
      "select_samples (int (shape0 (XX fin))) start_idx ns_max = Inr ns_sel" "M < 0"
  proof -
    obtain a b c e where r: "r = (a, b, c, e)" by (cases r) auto
    note o = open_datasets_okD [OF that(1) [unfolded r]]
    have p: "0 < ns_sel" using that(4,3) by (rule select_samples_pos)
    have "\<not> 0 < ns_sel div M" using p that(5) div_pos_imp_pos [of ns_sel M] by auto
    then show ?thesis
      using that(2-5) p
      by (auto simp: stream_sk_dualpol_def that(1) r o(1) ebind_def Let_def)
  qed
  show "stream_sk_dualpol ext fin M N d pfa start_idx ns_max = Inl NotEnoughSamples"
    if "open_datasets fin = Inr r" "0 \<le> start_idx" "start_idx < int (shape0 (XX fin))"
      "select_samples (int (shape0 (XX fin))) start_idx ns_max = Inr ns_sel" "0 < M" "ns_sel < M"
  proof -
    obtain a b c e where r: "r = (a, b, c, e)" by (cases r) auto
    note o = open_datasets_okD [OF that(1) [unfolded r]]
    have p: "0 < ns_sel" using that(4,3) by (rule select_samples_pos)
    have "ns_sel div M = 0" using p that(6) by simp
    then show ?thesis
      using that(2-6) p
      by (auto simp: stream_sk_dualpol_def that(1) r o(1) ebind_def Let_def)
  qed
qed

text \<open>
  Claim C1: for every block and every frequency channel of each polarization, the stored
  flag is \<open>-1\<close> exactly when the SK value is strictly less than the lower threshold, \<open>+1\<close>
  exactly when it is strictly greater than the upper threshold, and \<open>0\<close> otherwise; it is
  always one of \<open>-1\<close>, \<open>0\<close>, \<open>+1\<close>; and the same pair \<open>(lower, upper)\<close>, the one
  \<open>compute_sk_thresholds\<close> returns for \<open>(M, N, d, pfa)\<close>, classifies every block and both
  polarizations. The thresholds are the ends of an interval, the upper one not below the
  lower one, as the three exclusive cases of the claim take for granted; \<open>sk_value\<close> is
  what the evaluator returns for the cell.
\<close>

theorem stored_flag_classification:
  assumes ok: "stream_sk_dualpol ext fin M N d pfa start_idx ns_max = Inr out"
    and thr: "compute_sk_thresholds ext M N d pfa = (lower, upper, std)"
    and ord: "\<not> flt upper lower"
    and k: "k < n_time_blocks fin M start_idx ns_max" and f: "f < shape1 (XX fin)"
  shows "\<exists>flags_xx flags_yy.
     sk_flags_xx out = Some flags_xx \<and> sk_flags_yy out = Some flags_yy \<and>
     shape flags_xx = (n_time_blocks fin M start_idx ns_max, shape1 (XX fin)) \<and>
     shape flags_yy = (n_time_blocks fin M start_idx ns_max, shape1 (XX fin)) \<and>
     (cell flags_xx k f = - 1) = flt (sk_value ext (XX fin) start_idx M N d k f) lower \<and>
     (cell flags_xx k f = 1) = fgt (sk_value ext (XX fin) start_idx M N d k f) upper \<and>
     (cell flags_xx k f = 0) = (\<not> flt (sk_value ext (XX fin) start_idx M N d k f) lower \<and>
                               \<not> fgt (sk_value ext (XX fin) start_idx M N d k f) upper) \<and>
     (cell flags_yy k f = - 1) = flt (sk_value ext (YY fin) start_idx M N d k f) lower \<and>
     (cell flags_yy k f = 1) = fgt (sk_value ext (YY fin) start_idx M N d k f) upper \<and>
     (cell flags_yy k f = 0) = (\<not> flt (sk_value ext (YY fin) start_idx M N d k f) lower \<and>
                               \<not> fgt (sk_value ext (YY fin) start_idx M N d k f) upper) \<and>
     cell flags_xx k f \<in> {- 1, 0, 1} \<and> cell flags_yy k f \<in> {- 1, 0, 1}"
proof -
  let ?T = "n_time_blocks fin M start_idx ns_max" and ?nf = "shape1 (XX fin)"
  let ?sx = "sk_value ext (XX fin) start_idx M N d k f"
  let ?sy = "sk_value ext (YY fin) start_idx M N d k f"
  from stream_rows [OF ok thr k] obtain gxx gyy where
    ox: "sk_flags_xx out = Some \<lparr>shape1 = ?nf, rows = gxx\<rparr>"
    and oy: "sk_flags_yy out = Some \<lparr>shape1 = ?nf, rows = gyy\<rparr>"
    and len: "length gxx = ?T" "length gyy = ?T"
    and sx: "store_row ?nf (sk_flags lower upper (sk_block ext (XX fin) start_idx M N d k))
      = Inr (gxx ! k)"
    and sy: "store_row ?nf (sk_flags lower upper (sk_block ext (YY fin) start_idx M N d k))
      = Inr (gyy ! k)"
    by blast
  have nfy: "shape1 (YY fin) = ?nf" using stream_ok_facts(7) [OF ok] .
  have cx: "gxx ! k ! f = (if fgt ?sx upper then 1 else if flt ?sx lower then - 1 else 0)"
    using stored_flag [OF sx f] by (simp add: sk_value_def Let_def)
  have cy: "gyy ! k ! f = (if fgt ?sy upper then 1 else if flt ?sy lower then - 1 else 0)"
    using stored_flag [OF sy f] by (simp add: sk_value_def Let_def nfy)
  have excl: "\<not> (fgt s upper \<and> flt s lower)" for s
    using ord flt_trans [of upper s lower] by (auto simp: fgt_def)
  have px: "(gxx ! k ! f = - 1) = flt ?sx lower" "(gxx ! k ! f = 1) = fgt ?sx upper"
    "(gxx ! k ! f = 0) = (\<not> flt ?sx lower \<and> \<not> fgt ?sx upper)" "gxx ! k ! f \<in> {- 1, 0, 1}"
    using excl [of ?sx] unfolding cx by auto
  have py: "(gyy ! k ! f = - 1) = flt ?sy lower" "(gyy ! k ! f = 1) = fgt ?sy upper"
    "(gyy ! k ! f = 0) = (\<not> flt ?sy lower \<and> \<not> fgt ?sy upper)" "gyy ! k ! f \<in> {- 1, 0, 1}"
    using excl [of ?sy] unfolding cy by auto
  show ?thesis
    using px py len by (simp add: ox oy cell_def shape_def shape0_def)
qed

theorem stored_flag_classification_witness:
  "\<exists>flags_xx flags_yy.
     sk_flags_xx example_product = Some flags_xx \<and> sk_flags_yy example_product = Some flags_yy \<and>
     shape flags_xx = (1, 1) \<and> shape flags_yy = (1, 1) \<and>
     cell flags_xx 0 0 = 1 \<and> cell flags_yy 0 0 = 0 \<and>
     \<not> flt (Fin (5 / 2)) (Fin (1 / 2)) \<and>
     fgt (sk_value example_ext (XX (example_raw (Fin 9))) 0 4 24 (Fin 1) 0 0) (Fin (5 / 2)) \<and>
     \<not> flt (sk_value example_ext (YY (example_raw (Fin 9))) 0 4 24 (Fin 1) 0 0) (Fin (1 / 2)) \<and>
     \<not> fgt (sk_value example_ext (YY (example_raw (Fin 9))) 0 4 24 (Fin 1) 0 0) (Fin (5 / 2))"
proof -
  have thr: "compute_sk_thresholds example_ext 4 24 (Fin 1) (Fin (1 / 1000))
             = (Fin (1 / 2), Fin (5 / 2), Fin 0)"
    by (simp add: example_ext_def)
  have ord: "\<not> flt (Fin (5 / 2)) (Fin (1 / 2))" by simp
  have k: "0 < n_time_blocks (example_raw (Fin 9)) 4 0 None" by (simp add: example_blocks)
  have f: "0 < shape1 (XX (example_raw (Fin 9)))" by (simp add: example_raw_def)
  have nf: "shape1 (XX (example_raw (Fin 9))) = 1" by (simp add: example_raw_def)
  from stored_flag_classification [OF example_stream thr ord k f]
  show ?thesis
    by (simp add: example_sk example_blocks nf) blast
qed

text \<open>
  Claim C4: for every block index \<open>k\<close> in \<open>[0, T)\<close> and every frequency channel, each
  polarization's \<open>S1\<close> is the sum of the raw power samples over the samples
  \<open>[start + k M, start + k M + M)\<close> and \<open>S2\<close> is the sum of their squares; these are the
  sums the SK evaluator receives (\<open>sk_block\<close>), and the stored \<open>s1\<close> is the cast of
  \<open>S1\<close>. In particular (the instance below), \<open>M = 4\<close> and a single channel with raw
  samples \<open>1, 2, 3, 4\<close> give \<open>S1 = 10\<close> and \<open>S2 = 30\<close>. The input arrays are
  rectangular. Each square and each addition is a double operation (\<open>fsquare\<close>,
  \<open>fsum\<close>), the samples being read as \<open>float64\<close>.
\<close>

theorem block_moment_sums:
  assumes ok: "stream_sk_dualpol ext fin M N d pfa start_idx ns_max = Inr out"
    and wf: "wf_array (XX fin)" "wf_array (YY fin)"
    and k: "k < n_time_blocks fin M start_idx ns_max" and f: "f < shape1 (XX fin)"
  shows "s1_block (XX fin) start_idx M k ! f
           = fsum (map (\<lambda>i. cell (XX fin) i f) (block_samples start_idx M k)) \<and>
         s2_block (XX fin) start_idx M k ! f
           = fsum (map (\<lambda>i. fsquare (cell (XX fin) i f)) (block_samples start_idx M k)) \<and>
         s1_block (YY fin) start_idx M k ! f
           = fsum (map (\<lambda>i. cell (YY fin) i f) (block_samples start_idx M k)) \<and>
         s2_block (YY fin) start_idx M k ! f
           = fsum (map (\<lambda>i. fsquare (cell (YY fin) i f)) (block_samples start_idx M k)) \<and>
         length (block_samples start_idx M k) = nat M \<and>
         (\<forall>i\<in>set (block_samples start_idx M k).
            start_idx + int k * M \<le> int i \<and> int i < start_idx + int k * M + M \<and>
            i < shape0 (XX fin)) \<and>
         (\<exists>sxx syy. s1_xx out = Some sxx \<and> s1_yy out = Some syy \<and>
            cell sxx k f = astype_float32 ext (s1_block (XX fin) start_idx M k ! f) \<and>
            cell syy k f = astype_float32 ext (s1_block (YY fin) start_idx M k ! f))"
proof -
  let ?T = "n_time_blocks fin M start_idx ns_max" and ?nf = "shape1 (XX fin)"
  note fc = stream_ok_facts [OF ok]
  have ley: "start_idx + int ?T * M \<le> int (shape0 (YY fin))" using fc(5) fc(6) by simp
  have fy: "f < shape1 (YY fin)" using f fc(7) by simp
  note x = s1_block_cell [OF fc(1) k fc(5) fc(2) f] s2_block_cell [OF fc(1) k fc(5) fc(2) f wf(1)]
  note y = s1_block_cell [OF fc(1) k ley fc(2) fy] s2_block_cell [OF fc(1) k ley fc(2) fy wf(2)]
  note b = block_in_file [OF fc(1) k fc(5) fc(2)]
  have len: "length (block_samples start_idx M k) = nat M"
    using b(1) fc(1) by (simp add: block_samples_def)
  have rng: "\<forall>i\<in>set (block_samples start_idx M k).
            start_idx + int k * M \<le> int i \<and> int i < start_idx + int k * M + M \<and>
            i < shape0 (XX fin)"
    using b by (auto simp: block_samples_def)
  obtain lower upper std where thr: "compute_sk_thresholds ext M N d pfa = (lower, upper, std)"
    by (cases "compute_sk_thresholds ext M N d pfa") auto
  from stream_rows [OF ok thr k] obtain sxx syy where
    ox: "s1_xx out = Some \<lparr>shape1 = ?nf, rows = sxx\<rparr>"
    and oy: "s1_yy out = Some \<lparr>shape1 = ?nf, rows = syy\<rparr>"
    and sx: "store_row ?nf (map (astype_float32 ext) (s1_block (XX fin) start_idx M k))
      = Inr (sxx ! k)"
    and sy: "store_row ?nf (map (astype_float32 ext) (s1_block (YY fin) start_idx M k))
      = Inr (syy ! k)"
    by blast
  have cx: "sxx ! k ! f = astype_float32 ext (s1_block (XX fin) start_idx M k ! f)"
    using sx f unfolding s1_block_def by (rule stored_s1)
  have cy: "syy ! k ! f = astype_float32 ext (s1_block (YY fin) start_idx M k ! f)"
    using sy f unfolding s1_block_def fc(7) by (rule stored_s1)
  show ?thesis
    using x y len rng cx cy by (simp add: ox oy cell_def)
qed

theorem block_moment_sums_witness:
  "s1_block (XX (example_raw (Fin 9))) 0 4 0 ! 0 = Fin 10 \<and>
   s2_block (XX (example_raw (Fin 9))) 0 4 0 ! 0 = Fin 30 \<and>
   block_samples 0 4 0 = [0, 1, 2, 3] \<and>
   (\<exists>sxx. s1_xx example_product = Some sxx \<and> cell sxx 0 0 = Fin 10)"
proof -
  have wf: "wf_array (XX (example_raw (Fin 9)))" "wf_array (YY (example_raw (Fin 9)))"
    by (simp_all add: wf_array_def example_raw_def)
  have k: "0 < n_time_blocks (example_raw (Fin 9)) 4 0 None" by (simp add: example_blocks)
  have f: "0 < shape1 (XX (example_raw (Fin 9)))" by (simp add: example_raw_def)
  have bs: "block_samples 0 4 0 = [0, 1, 2, 3]" by (simp add: block_samples_def upt_rec)
  have s1: "fsum (map (\<lambda>i. cell (XX (example_raw (Fin 9))) i 0) [0, 1, 2, 3]) = Fin 10"
    by (simp add: fsum_def cell_def example_raw_def)
  have s2: "fsum (map (\<lambda>i. fsquare (cell (XX (example_raw (Fin 9))) i 0)) [0, 1, 2, 3]) = Fin 30"
    by (simp add: fsum_def cell_def example_raw_def fsquare_def)
  have id: "astype_float32 example_ext = (\<lambda>x. x)"
    by (simp add: example_ext_def)
  from block_moment_sums [OF example_stream wf k f, unfolded bs s1 s2]
  show ?thesis
    by (auto simp add: bs id)
qed

text \<open>
  Claim C5 says that stage 1 fails with a configuration error for every \<open>M \<le> 0\<close>. The
  code has no check of \<open>M\<close>: with \<open>M = 0\<close> the floor division \<open>ns_sel // M\<close> raises
  Python's \<open>ZeroDivisionError\<close> (and the input file is left open), and with \<open>M < 0\<close> the
  run ends in the "not enough samples" failure. The other failures of the claim are as
  it says (\<open>stream_sk_dualpol_failures\<close> above), each of them before anything is
  written.
\<close>

theorem zero_block_size_not_config_error:
  "stream_sk_dualpol example_ext (example_raw (Fin 9)) 0 24 (Fin 1)
     (Fin (1 / 1000)) 0 None = Inl ZeroDivisionError \<and>
   error_class_of ZeroDivisionError = Unclassified \<and>
   stream_sk_dualpol example_ext (example_raw (Fin 9)) (- 4) 24 (Fin 1)
     (Fin (1 / 1000)) 0 None = Inl NotEnoughSamples \<and>
   error_class_of NotEnoughSamples = InsufficientDataError"
  by (simp add: stream_sk_dualpol_def open_datasets_def example_raw_def
      shape0_def Let_def ebind_def select_samples_def)

text \<open>
  Claim C7: for every selected sample count \<open>S\<close> and block size \<open>M\<close>, the number of
  produced time blocks is \<open>T = floor (S / M)\<close>, and the trailing \<open>S - T M\<close> remainder
  samples contribute to no \<open>S1\<close>, \<open>S2\<close>, flag or block-time value of the output: a file
  that agrees with the input on the \<open>T M\<close> samples from the start offset on, and differs
  in the remainder (or anywhere else outside the selection), gives the same output.
\<close>

theorem remainder_samples_dropped:
  assumes ok: "stream_sk_dualpol ext fin M N d pfa start_idx ns_max = Inr out"
    and agree: "agree_on_selection start_idx
                  (int (n_time_blocks fin M start_idx ns_max) * M) fin fin'"
  shows "int (n_time_blocks fin M start_idx ns_max)
           = ns_selected (int (shape0 (XX fin))) start_idx ns_max div M \<and>
         (\<exists>sxx syy gxx gyy tb.
            s1_xx out = Some sxx \<and> s1_yy out = Some syy \<and>
            sk_flags_xx out = Some gxx \<and> sk_flags_yy out = Some gyy \<and> time_blk out = Some tb \<and>
            shape0 sxx = n_time_blocks fin M start_idx ns_max \<and>
            shape0 syy = n_time_blocks fin M start_idx ns_max \<and>
            shape0 gxx = n_time_blocks fin M start_idx ns_max \<and>
            shape0 gyy = n_time_blocks fin M start_idx ns_max \<and>
            length tb = n_time_blocks fin M start_idx ns_max) \<and>
         attr_ns_eff out = Some (int (n_time_blocks fin M start_idx ns_max) * M) \<and>
         stream_sk_dualpol ext fin' M N d pfa start_idx ns_max = Inr out"
proof -
  let ?T = "n_time_blocks fin M start_idx ns_max" and ?nf = "shape1 (XX fin)"
  note fc = stream_ok_facts [OF ok]
  have Tdiv: "int ?T = ns_selected (int (shape0 (XX fin))) start_idx ns_max div M"
    using fc(4) by (simp add: n_time_blocks_def)
  obtain lower upper std where thr: "compute_sk_thresholds ext M N d pfa = (lower, upper, std)"
    by (cases "compute_sk_thresholds ext M N d pfa") auto
  have k0: "0 < ?T" by (rule fc(4))
  from stream_rows [OF ok thr k0] have shapes:
    "\<exists>sxx syy gxx gyy tb.
            s1_xx out = Some sxx \<and> s1_yy out = Some syy \<and>
            sk_flags_xx out = Some gxx \<and> sk_flags_yy out = Some gyy \<and> time_blk out = Some tb \<and>
            shape0 sxx = ?T \<and> shape0 syy = ?T \<and> shape0 gxx = ?T \<and> shape0 gyy = ?T \<and>
            length tb = ?T"
    by (auto simp: shape0_def)
  from fc(10) thr obtain dsets where
    loop: "blocks_loop
         (process_block ext (XX fin) (YY fin) (time_axis fin) M N d lower upper start_idx)
         [0..<?T] (initial_datasets ?T ?nf) = Inr dsets"
    and out: "out = mk_skstream_file dsets ?nf (freq fin) M N d pfa
               (int (shape0 (XX fin))) start_idx (int ?T * M)"
    by auto
  have eff: "attr_ns_eff out = Some (int ?T * M)" by (simp add: out mk_skstream_file_def)
  from agree have ag:
    "shape0 (XX fin') = shape0 (XX fin)" "shape1 (XX fin') = shape1 (XX fin)"
    "shape0 (YY fin') = shape0 (YY fin)" "shape1 (YY fin') = shape1 (YY fin)"
    "freq fin' = freq fin" "length (time_axis fin') = length (time_axis fin)"
    and ax: "slice start_idx (start_idx + int ?T * M) (rows (XX fin'))
        = slice start_idx (start_idx + int ?T * M) (rows (XX fin))"
    and ay: "slice start_idx (start_idx + int ?T * M) (rows (YY fin'))
        = slice start_idx (start_idx + int ?T * M) (rows (YY fin))"
    and at: "slice start_idx (start_idx + int ?T * M) (time_axis fin')
        = slice start_idx (start_idx + int ?T * M) (time_axis fin)"
    by (simp_all add: agree_on_selection_def shape_def)
  have od: "open_datasets fin = Inr (XX fin, YY fin, freq fin, time_axis fin)"
    using fc(6-9) by (simp add: open_datasets_iff)
  have "shape0 (YY fin') = shape0 (XX fin') \<and> shape1 (YY fin') = shape1 (XX fin') \<and>
     length (freq fin') = shape1 (XX fin') \<and> length (time_axis fin') = shape0 (XX fin')"
    using fc(6-9) ag by simp
  then have od': "open_datasets fin' = Inr (XX fin', YY fin', freq fin', time_axis fin')"
    by (simp only: open_datasets_iff)
  have body: "process_block ext (XX fin') (YY fin') (time_axis fin') M N d lo up start_idx k st
      = process_block ext (XX fin) (YY fin) (time_axis fin) M N d lo up start_idx k st"
    if "k < ?T" for k st lo up
    using fc(2) fc(1) that ag(2) ag(4) ax ay at by (rule process_block_agree)
  have loops: "blocks_loop
         (process_block ext (XX fin') (YY fin') (time_axis fin') M N d lo up start_idx)
         [0..<?T] st
       = blocks_loop
         (process_block ext (XX fin) (YY fin) (time_axis fin) M N d lo up start_idx)
         [0..<?T] st" for lo up st
    by (rule blocks_loop_cong) (simp add: body)
  from stream_okD [OF ok] obtain tm ns_sel lo up sd ds where
    st: "0 \<le> start_idx" "start_idx < int (shape0 (XX fin))"
    and sel: "select_samples (int (shape0 (XX fin))) start_idx ns_max = Inr ns_sel"
    and pos: "0 < ns_sel" "M \<noteq> 0" "0 < ns_sel div M"
    and thr': "compute_sk_thresholds ext M N d pfa = (lo, up, sd)"
    and loop': "blocks_loop (process_block ext (XX fin) (YY fin) tm M N d lo up start_idx)
        [0..<nat (ns_sel div M)] (initial_datasets (nat (ns_sel div M)) (shape1 (XX fin)))
       = Inr ds"
    and odt: "open_datasets fin = Inr (XX fin, YY fin, freq fin, tm)"
    and out': "out = mk_skstream_file ds (shape1 (XX fin)) (freq fin) M N d pfa
             (int (shape0 (XX fin))) start_idx (ns_sel div M * M)"
    by blast
  have tm: "tm = time_axis fin" using od odt by simp
  have T: "nat (ns_sel div M) = ?T"
    using select_samples_Inr [OF sel] by (simp add: n_time_blocks_def)
  have loop'': "blocks_loop
         (process_block ext (XX fin') (YY fin') (time_axis fin') M N d lo up start_idx)
        [0..<nat (ns_sel div M)] (initial_datasets (nat (ns_sel div M)) (shape1 (XX fin')))
       = Inr ds"
    using loop' unfolding tm T ag(2) by (simp only: loops)
  have "stream_sk_dualpol ext fin' M N d pfa start_idx ns_max
        = Inr (mk_skstream_file ds (shape1 (XX fin')) (freq fin') M N d pfa
             (int (shape0 (XX fin'))) start_idx (ns_sel div M * M))"
  proof -
    have st2: "start_idx < int (shape0 (XX fin'))" using st(2) ag(1) by simp
    have sel': "select_samples (int (shape0 (XX fin'))) start_idx ns_max = Inr ns_sel"
      using sel ag(1) by simp
    from od' st(1) st2 sel' pos thr' loop'' show ?thesis by (rule stream_okI)
  qed
  then have "stream_sk_dualpol ext fin' M N d pfa start_idx ns_max = Inr out"
    by (simp add: out' ag)
  then show ?thesis using ok Tdiv shapes eff by simp
qed

theorem remainder_samples_dropped_witness:
  "int (n_time_blocks (example_raw (Fin 9)) 4 0 None) = 5 div 4 \<and>
   stream_sk_dualpol example_ext (example_raw (Fin 9)) 4 24 (Fin 1)
     (Fin (1 / 1000)) 0 None = Inr example_product \<and>
   stream_sk_dualpol example_ext (example_raw NaN) 4 24 (Fin 1)
     (Fin (1 / 1000)) 0 None = Inr example_product \<and>
   attr_ns_eff example_product = Some 4"
proof -
  have ag: "agree_on_selection 0 (int (n_time_blocks (example_raw (Fin 9)) 4 0 None) * 4)
              (example_raw (Fin 9)) (example_raw NaN)"
    unfolding example_blocks
    by (simp add: agree_on_selection_def example_raw_def shape_def shape0_def
        time_axis_def slice_def)
  have sel: "ns_selected (int (shape0 (XX (example_raw (Fin 9))))) 0 None = 5"
    by (simp add: ns_selected_def example_raw_def shape0_def)
  from remainder_samples_dropped [OF example_stream ag] example_stream [of "Fin 9"]
  show ?thesis
    by (simp add: sel example_blocks)
qed

section \<open>Stage 2: the dropped channels\<close>

lemma truncate_array_simps [simp]:
  "shape0 (truncate_array n a) = shape0 a"
  "shape1 (truncate_array n a) = min n (shape1 a)"
  "rows (truncate_array n a) = map (take n) (rows a)"
  by (simp_all add: truncate_array_def shape0_def)

lemma truncate_amap: "truncate_array n (amap g a) = amap g (truncate_array n a)"
  by (simp add: truncate_array_def amap_def take_map)

lemma wf_truncate_array: "wf_array a \<Longrightarrow> wf_array (truncate_array n a)"
  by (simp add: wf_array_def truncate_array_def list_all_iff min.commute)

lemma load_pol_truncate:
  "load_pol (map_option (truncate_array n) s) (map_option (truncate_array n) g)
   = truncate_pol n (load_pol s g)"
  by (cases s; cases g) (simp_all add: load_pol_def truncate_pol_def truncate_amap)

lemma truncate_pol_None [simp]: "truncate_pol n p = None \<longleftrightarrow> p = None"
  by (simp add: truncate_pol_def)

lemma load_skstream_truncate:
  assumes "load_skstream f = Inr data"
  shows "load_skstream (truncate_channels n f) = Inr (truncate_data n data)"
  using assms
  by (auto simp: load_skstream_def truncate_channels_def truncate_data_def load_pol_truncate
      truncate_pol_def Let_def split: option.splits if_splits)

lemma bc_row_truncate:
  assumes len: "length row = a" and c: "a = c \<or> a = 1" and n: "1 \<le> n"
  shows "(if min n a = min n c then take n row else replicate (min n c) (hd (take n row)))
         = take n (if a = c then row else replicate c (hd row))"
proof (cases "a = c")
  case True
  then show ?thesis by simp
next
  case False
  with c have a1: "a = 1" by simp
  then obtain v where row: "row = [v]" using len by (cases row) auto
  show ?thesis
  proof (cases "min n c = 1")
    case True
    then show ?thesis using False a1 n row by (simp add: min_def split: if_splits)
  next
    case False
    then show ?thesis using \<open>a \<noteq> c\<close> a1 n row by (simp add: min_def split: if_splits)
  qed
qed

lemma broadcast_dim_truncate:
  assumes "broadcast_dim a b = Some c" "1 \<le> n"
  shows "broadcast_dim (min n a) (min n b) = Some (min n c)"
  using assms by (auto simp: broadcast_dim_def min_def split: if_splits)

lemma broadcast_to_truncate:
  assumes wf: "wf_array x" and r: "shape0 x = r \<or> shape0 x = 1"
    and c: "shape1 x = c \<or> shape1 x = 1" and n: "1 \<le> n"
  shows "broadcast_to r (min n c) (truncate_array n x) = truncate_array n (broadcast_to r c x)"
proof -
  define rs where "rs = (if shape0 x = r then rows x else replicate r (hd (rows x)))"
  have sub: "set rs \<subseteq> set (rows x)"
  proof (cases "shape0 x = r")
    case True
    then show ?thesis by (simp add: rs_def)
  next
    case False
    with r have "rows x \<noteq> []" by (auto simp: shape0_def)
    then show ?thesis using False by (auto simp: rs_def)
  qed
  have rs': "(if shape0 x = r then map (take n) (rows x)
              else replicate r (hd (map (take n) (rows x)))) = map (take n) rs"
  proof (cases "shape0 x = r")
    case True
    then show ?thesis by (simp add: rs_def)
  next
    case False
    with r have "rows x \<noteq> []" by (auto simp: shape0_def)
    then show ?thesis using False by (simp add: rs_def hd_map)
  qed
  have row: "(if min n (shape1 x) = min n c then take n row
              else replicate (min n c) (hd (take n row)))
         = take n (if shape1 x = c then row else replicate c (hd row))"
    if "row \<in> set rs" for row
  proof -
    have "length row = shape1 x" using that sub wf by (auto simp: wf_array_def list_all_iff)
    then show ?thesis using c n by (rule bc_row_truncate)
  qed
  have "rows (broadcast_to r (min n c) (truncate_array n x))
      = map (\<lambda>row. if min n (shape1 x) = min n c then row else replicate (min n c) (hd row))
          (map (take n) rs)"
    unfolding broadcast_to_def by (simp only: truncate_array_simps rs' array2.simps)
  also have "\<dots> = map (\<lambda>row. if min n (shape1 x) = min n c then take n row
                    else replicate (min n c) (hd (take n row))) rs"
    by (simp only: map_map comp_def)
  also have "\<dots> = map (\<lambda>row. take n (if shape1 x = c then row else replicate c (hd row))) rs"
    by (rule map_cong [OF refl]) (rule row)
  also have "\<dots> = map (take n)
        (map (\<lambda>row. if shape1 x = c then row else replicate c (hd row)) rs)"
    by (simp only: map_map comp_def)
  also have "\<dots> = rows (truncate_array n (broadcast_to r c x))"
    unfolding broadcast_to_def rs_def by (simp only: truncate_array_simps array2.simps)
  finally have "rows (broadcast_to r (min n c) (truncate_array n x))
      = rows (truncate_array n (broadcast_to r c x))" .
  then show ?thesis
    by (simp add: broadcast_to_def truncate_array_def)
qed

lemma map2_take_rows:
  "map2 (map2 g) (map (take n) X) (map (take n) Y) = map (take n) (map2 (map2 g) X Y)"
  by (simp add: zip_map_map take_map take_zip split_def comp_def)

lemma elementwise_truncate:
  assumes wf: "wf_array x" "wf_array y" and ok: "elementwise g x y = Inr z" and n: "1 \<le> n"
  shows "elementwise g (truncate_array n x) (truncate_array n y) = Inr (truncate_array n z)"
proof -
  from ok obtain r c where
    r: "broadcast_dim (shape0 x) (shape0 y) = Some r"
    and c: "broadcast_dim (shape1 x) (shape1 y) = Some c"
    and z: "z = \<lparr>shape1 = c,
               rows = map2 (map2 g) (rows (broadcast_to r c x)) (rows (broadcast_to r c y))\<rparr>"
    by (auto simp: elementwise_def split: option.splits)
  note rD = broadcast_dim_Some [OF r] and cD = broadcast_dim_Some [OF c]
  have c': "broadcast_dim (min n (shape1 x)) (min n (shape1 y)) = Some (min n c)"
    using c n by (rule broadcast_dim_truncate)
  have bx: "broadcast_to r (min n c) (truncate_array n x) = truncate_array n (broadcast_to r c x)"
    using wf(1) rD cD n by (intro broadcast_to_truncate) simp_all
  have by': "broadcast_to r (min n c) (truncate_array n y) = truncate_array n (broadcast_to r c y)"
    using wf(2) rD cD n by (intro broadcast_to_truncate) simp_all
  have tz: "truncate_array n z = \<lparr>shape1 = min n c,
      rows = map (take n)
        (map2 (map2 g) (rows (broadcast_to r c x)) (rows (broadcast_to r c y)))\<rparr>"
    by (simp add: truncate_array_def z)
  show ?thesis
    unfolding elementwise_def
    by (simp only: truncate_array_simps r c' bx by' tz map2_take_rows option.case prod.case)
qed

lemma clean_truncate:
  assumes ok: "clean_with_good_mask s1 good F_block = Inr (c, m, F_eff, n_blocks)"
  shows "clean_with_good_mask (truncate_array F_eff s1) (truncate_array F_eff good) F_block
         = Inr (c, m, F_eff, n_blocks)"
proof -
  note p = clean_ok_params [OF ok]
  have le: "F_eff \<le> shape1 s1" unfolding p(4) p(3) by simp
  have Fpos: "0 < nat F_block" using p(2) by simp
  have F': "min F_eff (shape1 s1) = F_eff" using le by simp
  have nb: "F_eff div nat F_block = n_blocks" unfolding p(4) using Fpos by simp
  have sh: "shape (truncate_array F_eff s1) = shape (truncate_array F_eff good)"
    using p(1) by (simp add: shape_def)
  have tt: "map (take F_eff) (map (take F_eff) xs) = map (take F_eff) xs" for xs :: "'b list list"
    by simp
  have "clean_with_good_mask (truncate_array F_eff s1) (truncate_array F_eff good) F_block
        = clean_with_good_mask s1 good F_block"
    unfolding clean_with_good_mask_def Let_def
    using p(1) p(2) p(5)
    by (simp only: sh truncate_array_simps F' nb p(4) [symmetric] p(3) [symmetric] tt)
      (simp del: map_map)
  then show ?thesis using ok by simp
qed

lemma freq_blocks_truncate:
  "freq_blocks (take F_eff fr) F_eff n_blocks F_block = freq_blocks fr F_eff n_blocks F_block"
  by (simp add: freq_blocks_def)

lemma good_of_truncate: "good_of (truncate_array n g) = truncate_array n (good_of g)"
  by (simp add: good_of_def truncate_amap)

lemma flagged_of_truncate: "flagged_of (truncate_array n g) = truncate_array n (flagged_of g)"
  by (simp add: flagged_of_def truncate_amap)

lemma wf_flagged_of [simp]: "wf_array (flagged_of g) = wf_array g"
  by (simp add: flagged_of_def)

lemma good_comb_truncate:
  assumes gc: "good_comb flag_mode data = Inr comb"
    and wf: "wf_pol (d_xx data)" "wf_pol (d_yy data)" and n: "1 \<le> n"
  shows "good_comb flag_mode (truncate_data n data) = Inr (map_option (truncate_array n) comb)"
proof (cases "(flag_mode = ''or'' \<or> flag_mode = ''and'') \<and> has_xx data \<and> has_yy data")
  case False
  then show ?thesis
    using gc by (auto simp: good_comb_def has_xx_def has_yy_def truncate_data_def)
next
  case True
  then obtain sx gx sy gy where
    dx: "d_xx data = Some (sx, gx)" and dy: "d_yy data = Some (sy, gy)"
    by (auto simp: has_xx_def has_yy_def)
  from True have mode: "flag_mode = ''or'' \<or> flag_mode = ''and''" by simp
  from good_comb_both [OF dx dy mode gc] obtain flagged where
    el: "(if flag_mode = ''or'' then elementwise (\<or>) (flagged_of gx) (flagged_of gy)
         else elementwise (\<and>) (flagged_of gx) (flagged_of gy)) = Inr flagged"
    and comb: "comb = Some (amap Not flagged)"
    by blast
  have wfg: "wf_array (flagged_of gx)" "wf_array (flagged_of gy)"
    using wf dx dy by (simp_all add: wf_pol_def)
  have el': "(if flag_mode = ''or''
              then elementwise (\<or>) (flagged_of (truncate_array n gx)) (flagged_of (truncate_array n gy))
              else elementwise (\<and>) (flagged_of (truncate_array n gx)) (flagged_of (truncate_array n gy)))
             = Inr (truncate_array n flagged)"
  proof (cases "flag_mode = ''or''")
    case True
    with el have "elementwise (\<or>) (flagged_of gx) (flagged_of gy) = Inr flagged" by simp
    from elementwise_truncate [OF wfg this n] True show ?thesis
      by (simp add: flagged_of_truncate)
  next
    case False
    with el have "elementwise (\<and>) (flagged_of gx) (flagged_of gy) = Inr flagged" by simp
    from elementwise_truncate [OF wfg this n] False show ?thesis
      by (simp add: flagged_of_truncate)
  qed
  have dx': "d_xx (truncate_data n data) = Some (truncate_array n sx, truncate_array n gx)"
    and dy': "d_yy (truncate_data n data) = Some (truncate_array n sy, truncate_array n gy)"
    by (simp_all add: truncate_data_def truncate_pol_def dx dy)
  have "good_comb flag_mode (truncate_data n data)
        = ebind (if flag_mode = ''or''
              then elementwise (\<or>) (flagged_of (truncate_array n gx)) (flagged_of (truncate_array n gy))
              else elementwise (\<and>) (flagged_of (truncate_array n gx)) (flagged_of (truncate_array n gy)))
            (\<lambda>flagged_comb. Inr (Some (amap Not flagged_comb)))"
    using mode by (simp add: good_comb_def has_xx_def has_yy_def dx' dy' Let_def)
  then show ?thesis
    unfolding el' by (simp add: ebind_def comb truncate_amap)
qed

lemma clean_pol_truncate:
  assumes ok: "clean_pol comb F_block pol = Inr r"
    and fe: "\<And>c m fe nb. r = Some (c, m, fe, nb) \<Longrightarrow> fe = F_eff"
  shows "clean_pol (map_option (truncate_array F_eff) comb) F_block (truncate_pol F_eff pol) = Inr r"
proof (cases pol)
  case None
  then show ?thesis using ok by (simp add: clean_pol_def truncate_pol_def)
next
  case (Some p)
  obtain s1 flags where p: "p = (s1, flags)" by (cases p) auto
  from clean_pol_Some [OF ok [unfolded Some p]] obtain c m fe nb where
    r: "r = Some (c, m, fe, nb)"
    and cl: "clean_with_good_mask s1 (good_for comb flags) F_block = Inr (c, m, fe, nb)"
    by blast
  have fe': "fe = F_eff" using r by (rule fe)
  have gf: "good_for (map_option (truncate_array F_eff) comb) (truncate_array F_eff flags)
        = truncate_array F_eff (good_for comb flags)"
    by (cases comb) (simp_all add: good_for_def good_of_truncate)
  show ?thesis
    using clean_truncate [OF cl [unfolded fe']]
    by (simp add: clean_pol_def truncate_pol_def Some p gf r fe' ebind_def)
qed

lemma rfi_cleanI:
  assumes "load_skstream skfile = Inr data"
    and "str_lower mode = ''separate'' \<or> str_lower mode = ''or'' \<or> str_lower mode = ''and''"
    and "good_comb (str_lower mode) data = Inr comb"
    and "clean_pol comb F_block (d_xx data) = Inr rx"
    and "clean_pol comb F_block (d_yy data) = Inr ry"
    and "block_counts rx ry = Inr (F_eff, n_blocks)"
    and "freq_blocks (d_freq_hz data) F_eff n_blocks F_block = Inr freq_blk"
  shows "rfi_clean skfile F_block mode
         = Inr (mk_clean_file data F_block (str_lower mode) rx ry F_eff n_blocks freq_blk)"
  using assms
  by (auto simp: rfi_clean_def ebind_def Let_def mk_clean_file_def)

lemma wf_pol_load:
  "(case g of None \<Rightarrow> True | Some a \<Rightarrow> wf_array a) \<Longrightarrow> wf_pol (load_pol s g)"
  by (cases s; cases g) (simp_all add: wf_pol_def load_pol_def)

lemma freq_blocks_Inr:
  assumes ok: "freq_blocks fr F_eff n_blocks F_block = Inr freq_blk"
    and fe: "F_eff = n_blocks * nat F_block"
  shows "F_eff \<le> length fr" "length freq_blk = n_blocks"
    "b < n_blocks \<Longrightarrow> freq_blk ! b = fmean (map ((!) fr) (block_channels (nat F_block) b))"
proof -
  from ok have len: "length (take F_eff fr) = n_blocks * nat F_block"
    and fb: "freq_blk = map fmean (reshape_row n_blocks (nat F_block) (take F_eff fr))"
    by (auto simp: freq_blocks_def Let_def split: if_splits)
  show le: "F_eff \<le> length fr" using len fe by simp
  show "length freq_blk = n_blocks" by (simp add: fb)
  show "freq_blk ! b = fmean (map ((!) fr) (block_channels (nat F_block) b))" if "b < n_blocks"
    using that le reshape_take_block [of b n_blocks "nat F_block" fr]
    by (simp add: fb fe)
qed

lemma block_counts_Some:
  assumes "block_counts rx ry = Inr (F_eff, n_blocks)"
  shows "(\<exists>c m. rx = Some (c, m, F_eff, n_blocks)) \<or> (\<exists>c m. ry = Some (c, m, F_eff, n_blocks))"
  using assms by (auto simp: block_counts_def split: option.splits if_splits)

lemma clean_pol_params:
  assumes "clean_pol comb F_block pol = Inr (Some (c, m, F_eff, n_blocks))"
  shows "0 < F_block \<and> 0 < n_blocks \<and> F_eff = n_blocks * nat F_block"
proof -
  from assms obtain s1 flags where
    "clean_with_good_mask s1 (good_for comb flags) F_block = Inr (c, m, F_eff, n_blocks)"
    by (auto simp: clean_pol_def ebind_Inr split: option.splits)
  from clean_ok_params [OF this] show ?thesis by simp
qed

text \<open>
  Claim C9: for every channel count \<open>F\<close> and block size \<open>F_block\<close>, stage 2 produces
  \<open>n_blocks = floor (F / F_block)\<close> frequency blocks (for each polarization it
  integrates); the trailing \<open>F - n_blocks F_block\<close> channels are excluded from every
  output array (\<open>s1_clean\<close>, the mask and the block-frequency axis: each has \<open>n_blocks\<close>
  columns, and the file cut down to its first \<open>F_eff\<close> channels gives the same output);
  and each block's frequency label is the mean of its \<open>F_block\<close> channel frequencies,
  all of them inside the truncated \<open>F_eff\<close> axis. In particular (the instance below)
  \<open>F = 10\<close>, \<open>F_block = 4\<close> gives \<open>n_blocks = 2\<close> and \<open>F_eff = 8\<close>. The arrays of the
  file are rectangular.
\<close>

theorem frequency_blocks_drop_remainder:
  assumes ok: "rfi_clean skfile F_block mode = Inr out" and wf: "wf_skstream skfile"
  shows "0 < F_block \<and> 0 < out_n_blocks out \<and> out_F_eff out = out_n_blocks out * nat F_block \<and>
     (\<forall>s1 g. s1_xx skfile = Some s1 \<and> sk_flags_xx skfile = Some g \<longrightarrow>
        out_n_blocks out = shape1 s1 div nat F_block \<and>
        (\<exists>c m. s1_xx_clean out = Some c \<and> mask_xx out = Some m \<and>
           shape c = (shape0 s1, out_n_blocks out) \<and> shape m = (shape0 s1, out_n_blocks out))) \<and>
     (\<forall>s1 g. s1_yy skfile = Some s1 \<and> sk_flags_yy skfile = Some g \<longrightarrow>
        out_n_blocks out = shape1 s1 div nat F_block \<and>
        (\<exists>c m. s1_yy_clean out = Some c \<and> mask_yy out = Some m \<and>
           shape c = (shape0 s1, out_n_blocks out) \<and> shape m = (shape0 s1, out_n_blocks out))) \<and>
     (\<exists>fr. freq_hz skfile = Some fr \<and> out_F_eff out \<le> length fr \<and>
        length (freq_block_hz out) = out_n_blocks out \<and>
        (\<forall>b<out_n_blocks out.
           freq_block_hz out ! b = fmean (map ((!) fr) (block_channels (nat F_block) b)) \<and>
           (\<forall>j\<in>set (block_channels (nat F_block) b). j < out_F_eff out))) \<and>
     rfi_clean (truncate_channels (out_F_eff out) skfile) F_block mode = Inr out"
proof -
  from rfi_clean_okD [OF ok] obtain data comb rx ry F_eff n_blocks freq_blk where
    ld: "load_skstream skfile = Inr data"
    and md: "str_lower mode = ''separate'' \<or> str_lower mode = ''or'' \<or> str_lower mode = ''and''"
    and gc: "good_comb (str_lower mode) data = Inr comb"
    and cx: "clean_pol comb F_block (d_xx data) = Inr rx"
    and cy: "clean_pol comb F_block (d_yy data) = Inr ry"
    and bc: "block_counts rx ry = Inr (F_eff, n_blocks)"
    and fb: "freq_blocks (d_freq_hz data) F_eff n_blocks F_block = Inr freq_blk"
    and out: "out = mk_clean_file data F_block (str_lower mode) rx ry F_eff n_blocks freq_blk"
    by blast
  have oF: "out_F_eff out = F_eff" "out_n_blocks out = n_blocks" "freq_block_hz out = freq_blk"
    by (simp_all add: out mk_clean_file_def)
  have par: "0 < F_block \<and> 0 < n_blocks \<and> F_eff = n_blocks * nat F_block"
    using block_counts_Some [OF bc] cx cy clean_pol_params by blast
  then have Fpos: "0 < F_block" and npos: "0 < n_blocks" and fe: "F_eff = n_blocks * nat F_block"
    by simp_all
  have Fn: "1 \<le> nat F_block" using Fpos by arith
  have "1 * 1 \<le> n_blocks * nat F_block" using npos Fn by (intro mult_le_mono) arith+
  then have n1: "1 \<le> F_eff" unfolding fe by arith
  have xx: "out_n_blocks out = shape1 s1 div nat F_block \<and>
        (\<exists>c m. s1_xx_clean out = Some c \<and> mask_xx out = Some m \<and>
           shape c = (shape0 s1, out_n_blocks out) \<and> shape m = (shape0 s1, out_n_blocks out))"
    if "s1_xx skfile = Some s1" "sk_flags_xx skfile = Some g" for s1 g
  proof -
    from rfi_clean_xx [OF ok that] obtain dt cb c m where
      cl: "clean_with_good_mask s1 (good_for cb (amap asfloat g)) F_block
             = Inr (c, m, out_F_eff out, out_n_blocks out)"
      and o: "s1_xx_clean out = Some c" "mask_xx out = Some m"
      by blast
    show ?thesis
      using clean_ok_params(3) [OF cl] clean_ok_shape [OF cl] o by (simp add: shape_def)
  qed
  have yy: "out_n_blocks out = shape1 s1 div nat F_block \<and>
        (\<exists>c m. s1_yy_clean out = Some c \<and> mask_yy out = Some m \<and>
           shape c = (shape0 s1, out_n_blocks out) \<and> shape m = (shape0 s1, out_n_blocks out))"
    if "s1_yy skfile = Some s1" "sk_flags_yy skfile = Some g" for s1 g
  proof -
    from rfi_clean_yy [OF ok that] obtain dt cb c m where
      cl: "clean_with_good_mask s1 (good_for cb (amap asfloat g)) F_block
             = Inr (c, m, out_F_eff out, out_n_blocks out)"
      and o: "s1_yy_clean out = Some c" "mask_yy out = Some m"
      by blast
    show ?thesis
      using clean_ok_params(3) [OF cl] clean_ok_shape [OF cl] o by (simp add: shape_def)
  qed
  note lp = load_skstream_pols [OF ld]
  note fq = freq_blocks_Inr [OF fb fe]
  have fr: "freq_hz skfile = Some (d_freq_hz data) \<and> out_F_eff out \<le> length (d_freq_hz data) \<and>
        length (freq_block_hz out) = out_n_blocks out \<and>
        (\<forall>b<out_n_blocks out.
           freq_block_hz out ! b
             = fmean (map ((!) (d_freq_hz data)) (block_channels (nat F_block) b)) \<and>
           (\<forall>j\<in>set (block_channels (nat F_block) b). j < out_F_eff out))"
    using lp(3) fq block_channels_bound [of _ n_blocks _ "nat F_block"]
    by (auto simp: oF fe)
  have wfp: "wf_pol (d_xx data)" "wf_pol (d_yy data)"
    using wf unfolding lp(1,2) wf_skstream_def by (auto intro: wf_pol_load)
  have ld': "load_skstream (truncate_channels F_eff skfile) = Inr (truncate_data F_eff data)"
    using ld by (rule load_skstream_truncate)
  have gc': "good_comb (str_lower mode) (truncate_data F_eff data)
             = Inr (map_option (truncate_array F_eff) comb)"
    using gc wfp n1 by (rule good_comb_truncate)
  have cx': "clean_pol (map_option (truncate_array F_eff) comb) F_block
               (d_xx (truncate_data F_eff data)) = Inr rx"
    using clean_pol_truncate [OF cx, of F_eff] bc
    by (auto simp: truncate_data_def dest: block_counts_xx)
  have cy': "clean_pol (map_option (truncate_array F_eff) comb) F_block
               (d_yy (truncate_data F_eff data)) = Inr ry"
    using clean_pol_truncate [OF cy, of F_eff] bc
    by (auto simp: truncate_data_def dest: block_counts_yy)
  have fb': "freq_blocks (d_freq_hz (truncate_data F_eff data)) F_eff n_blocks F_block = Inr freq_blk"
    using fb by (simp add: truncate_data_def freq_blocks_truncate)
  have "rfi_clean (truncate_channels F_eff skfile) F_block mode
        = Inr (mk_clean_file (truncate_data F_eff data) F_block (str_lower mode) rx ry
                 F_eff n_blocks freq_blk)"
    using ld' md gc' cx' cy' bc fb' by (rule rfi_cleanI)
  also have "mk_clean_file (truncate_data F_eff data) F_block (str_lower mode) rx ry
                 F_eff n_blocks freq_blk = out"
    by (simp add: out mk_clean_file_def truncate_data_def)
  finally have inv: "rfi_clean (truncate_channels (out_F_eff out) skfile) F_block mode = Inr out"
    by (simp add: oF)
  show ?thesis
    using Fpos npos fe xx yy fr inv unfolding oF(1,2) by blast
qed

theorem frequency_blocks_drop_remainder_witness:
  "rfi_clean example_wide 4 ''separate'' = Inr example_wide_clean \<and>
   out_n_blocks example_wide_clean = 10 div 4 \<and>
   out_n_blocks example_wide_clean = 2 \<and> out_F_eff example_wide_clean = 8 \<and>
   length (freq_block_hz example_wide_clean) = 2 \<and>
   rfi_clean (truncate_channels 8 example_wide) 4 ''separate'' = Inr example_wide_clean"
proof -
  have ok: "rfi_clean example_wide 4 ''separate'' = Inr example_wide_clean"
    by (simp add: rfi_clean_def load_skstream_def load_pol_def example_wide_def
        example_wide_clean_def str_lower_def lower_char_def good_comb_def has_xx_def has_yy_def
        amap_def asfloat_def feq_def shape0_def ebind_def clean_pol_def good_for_def good_of_def
        block_counts_def freq_blocks_def clean_with_good_mask_def shape_def Let_def
        reshape_row_def astype_float_def fsum_def fmean_def fgt_def upt_rec round_double_5_2
        round_double_20_3 round_double_20_3_times_4)
  have wf: "wf_skstream example_wide"
    by (simp add: wf_skstream_def example_wide_def wf_array_def)
  have x: "s1_xx example_wide = Some \<lparr>shape1 = 10,
         rows = [[Fin 1, Fin 2, Fin 3, Fin 4, Fin 5, Fin 6, Fin 7, Fin 8, Fin 9, Fin 10]]\<rparr>"
    "sk_flags_xx example_wide = Some \<lparr>shape1 = 10, rows = [[0, 0, 0, 0, 0, 1, 0, 0, 0, - 1]]\<rparr>"
    by (simp_all add: example_wide_def)
  have e: "out_F_eff example_wide_clean = 8" "out_n_blocks example_wide_clean = 2"
    "freq_block_hz example_wide_clean = [Fin 25, Fin 65]"
    by (simp_all add: example_wide_clean_def)
  from frequency_blocks_drop_remainder [OF ok wf] ok x
  show ?thesis
    by (simp add: e)
qed

end
